theory Spec2Isabelle
  imports Main "HOL-Library.Sublist" "HOL-Library.List_Lexorder" "HOL-Library.Char_ord"
begin

section \<open>Strings\<close>

text \<open>
  Python's \<open>str\<close> is a sequence of code points. It is modelled by \<open>string\<close>, whose
  characters are the code points below 256; the character classes below are the ones of
  \<open>str.isspace\<close>, of \<open>str.splitlines\<close> and of the regular expression classes
  \<open>\s\<close> and \<open>\w\<close> on that range.
\<close>

definition isspace :: "char \<Rightarrow> bool" where
  \<comment> \<open>\<open>str.isspace\<close> and the class \<open>\s\<close>: TAB..CR, FS..US, space, NEL, NBSP\<close>
  "isspace c = (let n = (of_char c :: nat) in
     (9 \<le> n \<and> n \<le> 13) \<or> (28 \<le> n \<and> n \<le> 32) \<or> n = 133 \<or> n = 160)"

definition isword :: "char \<Rightarrow> bool" where
  \<comment> \<open>the class \<open>\w\<close>: alphanumeric characters and the underscore\<close>
  "isword c = (let n = (of_char c :: nat) in
     (48 \<le> n \<and> n \<le> 57) \<or> (65 \<le> n \<and> n \<le> 90) \<or> n = 95 \<or> (97 \<le> n \<and> n \<le> 122) \<or>
     n = 170 \<or> n = 178 \<or> n = 179 \<or> n = 181 \<or> n = 185 \<or> n = 186 \<or>
     (188 \<le> n \<and> n \<le> 190) \<or> (192 \<le> n \<and> n \<le> 214) \<or> (216 \<le> n \<and> n \<le> 246) \<or>
     (248 \<le> n \<and> n \<le> 255))"

definition lstrip :: "string \<Rightarrow> string" where
  "lstrip s = dropWhile isspace s"

definition rstrip :: "string \<Rightarrow> string" where
  "rstrip s = rev (dropWhile isspace (rev s))"

definition strip :: "string \<Rightarrow> string" where
  "strip s = rstrip (lstrip s)"

definition upper_char :: "char \<Rightarrow> string" where
  \<comment> \<open>a lower-case letter loses 32 (bit 5); the sharp s becomes two letters; the upper-case
      forms of the micro sign and of y with diaeresis lie beyond the range and are left
      in place (neither they nor their images occur in a level name)\<close>
  "upper_char c = (let n = (of_char c :: nat) in
     if (97 \<le> n \<and> n \<le> 122) \<or> (224 \<le> n \<and> n \<le> 254 \<and> n \<noteq> 247)
     then (case c of Char b0 b1 b2 b3 b4 b5 b6 b7 \<Rightarrow> [Char b0 b1 b2 b3 b4 False b6 b7])
     else if n = 223 then ''SS''
     else [c])"

definition upper :: "string \<Rightarrow> string" where
  "upper s = concat (map upper_char s)"

definition lower_char :: "char \<Rightarrow> char" where
  \<comment> \<open>an upper-case letter gains 32 (bit 5)\<close>
  "lower_char c = (let n = (of_char c :: nat) in
     if (65 \<le> n \<and> n \<le> 90) \<or> (192 \<le> n \<and> n \<le> 222 \<and> n \<noteq> 215)
     then (case c of Char b0 b1 b2 b3 b4 b5 b6 b7 \<Rightarrow> Char b0 b1 b2 b3 b4 True b6 b7)
     else c)"

definition lower :: "string \<Rightarrow> string" where
  "lower s = map lower_char s"

definition startswith :: "string \<Rightarrow> string \<Rightarrow> bool" where
  \<comment> \<open>\<open>s.startswith(p)\<close>\<close>
  "startswith s p = prefix p s"

definition partition_str :: "char \<Rightarrow> string \<Rightarrow> string \<times> string" where
  \<comment> \<open>\<open>head, _, tail = s.partition(sep)\<close> for a one-character separator: without the
      separator the head is all of \<open>s\<close> and the tail is empty\<close>
  "partition_str sep s = (takeWhile (\<lambda>c. c \<noteq> sep) s, drop 1 (dropWhile (\<lambda>c. c \<noteq> sep) s))"

section \<open>The level table (prod.py, lines 5 to 12)\<close>

text \<open>
  \<open>logging._nameToLevel\<close> belongs to Python's standard library, not to the repository:
  it is a dictionary from the level names to their ranks, here in its insertion order.
\<close>

definition nameToLevel :: "(string \<times> int) list" where
  "nameToLevel =
     [(''CRITICAL'', 50), (''FATAL'', 50), (''ERROR'', 40), (''WARN'', 30),
      (''WARNING'', 30), (''INFO'', 20), (''DEBUG'', 10), (''NOTSET'', 0)]"

definition pop :: "string \<Rightarrow> (string \<times> int) list \<Rightarrow> (string \<times> int) list" where
  \<comment> \<open>\<open>d.pop(k)\<close> on a dictionary kept as an association list\<close>
  "pop k d = filter (\<lambda>(k', v'). k' \<noteq> k) d"

definition hasLongerAlias :: "(string \<times> int) list \<Rightarrow> string \<Rightarrow> int \<Rightarrow> bool" where
  \<comment> \<open>\<open>any(_k.startswith(k) and v == _v for _k, _v in table.items() if k != _k)\<close>\<close>
  "hasLongerAlias tbl k v = list_ex (\<lambda>(k', v'). k \<noteq> k' \<and> startswith k' k \<and> v = v') tbl"

definition dedupLevels :: "(string \<times> int) list \<Rightarrow> (string \<times> int) list" where
  \<comment> \<open>the loop of lines 8 to 10, over the table, popping from the copy\<close>
  "dedupLevels tbl = fold (\<lambda>(k, v) d. if hasLongerAlias tbl k v then pop k d else d) tbl tbl"

definition LOGLEVELS_of :: "(string \<times> int) list \<Rightarrow> string list" where
  "LOGLEVELS_of tbl = sort (map fst (dedupLevels tbl))"

definition LOGLEVELS :: "string list" where
  "LOGLEVELS = LOGLEVELS_of nameToLevel"

section \<open>parseComment (prod.py, lines 15 to 40)\<close>

definition resolveLevel :: "string \<Rightarrow> string option" where
  \<comment> \<open>\<open>next(L for L in LOGLEVELS if L.startswith(level.upper()))\<close>; \<open>None\<close> is
      \<open>StopIteration\<close>\<close>
  "resolveLevel level = find (\<lambda>L. startswith L (upper level)) LOGLEVELS"

definition parseComment :: "string \<Rightarrow> string \<times> string" where
  "parseComment comment =
     (let (level, logline) = partition_str CHR '':'' comment;
          level = strip level;
          logline = strip logline
      in if level = [] then (''INFO'', comment)
         else (case resolveLevel level of
                 Some L \<Rightarrow> (L, logline)
               | None \<Rightarrow> (''INFO'', comment)))"

section \<open>The syntax tree\<close>

text \<open>
  \<open>ast.parse\<close> belongs to Python's standard library. The functions below take it as a
  parameter \<open>ast_parse\<close> from the source text to the tree, with \<open>None\<close> where the call
  raises. The tree keeps what the code reads of it: the import statements, the function
  definitions with their decorators and line span, and the statements nested in other
  statements, in the order of \<open>ast.iter_child_nodes\<close>. Expressions hold no statement,
  so \<open>ast.walk\<close> meets the statements in the same order with or without them.
\<close>

datatype expr =
    Name string
  | Attribute expr string
  | Call expr "expr list"
  | OtherExpr

datatype import_alias = Alias (alias_name: string) (asname: "string option")

datatype node =
    Module "node list"
  | ImportFrom "string option" "import_alias list"
  | Import "import_alias list"
  | FunctionDef string "expr list" int "int option" "node list"
  | AsyncFunctionDef string "expr list" int "int option" "node list"
  | OtherNode "node list"

fun iter_child_nodes :: "node \<Rightarrow> node list" where
  "iter_child_nodes (Module body) = body"
| "iter_child_nodes (ImportFrom m names) = []"
| "iter_child_nodes (Import names) = []"
| "iter_child_nodes (FunctionDef nm decorator_list lineno end_lineno body) = body"
| "iter_child_nodes (AsyncFunctionDef nm decorator_list lineno end_lineno body) = body"
| "iter_child_nodes (OtherNode body) = body"

function walk_queue :: "node list \<Rightarrow> node list" where
  \<comment> \<open>\<open>ast.walk\<close>: a queue, the children of the node taken from its front joining its back\<close>
  "walk_queue [] = []"
| "walk_queue (n # todo) = n # walk_queue (todo @ iter_child_nodes n)"
  by pat_completeness auto
termination
proof (relation "measure (\<lambda>q. sum_list (map (\<lambda>c. Suc (size c)) q))")
  show "wf (measure (\<lambda>q. sum_list (map (\<lambda>c. Suc (size c)) q)))" by simp
next
  fix n :: node and todo :: "node list"
  have "sum_list (map (\<lambda>c. Suc (size c)) (iter_child_nodes n)) \<le> size n"
    by (cases n) (simp_all add: size_list_conv_sum_list sum_list_addf sum_list_Suc)
  then show "(todo @ iter_child_nodes n, n # todo) \<in> measure (\<lambda>q. sum_list (map (\<lambda>c. Suc (size c)) q))"
    by simp
qed

definition walk :: "node \<Rightarrow> node list" where
  "walk tree = walk_queue [tree]"

definition importedName :: "import_alias \<Rightarrow> string" where
  \<comment> \<open>\<open>alias.asname if alias.asname else alias.name\<close>\<close>
  "importedName a = (case asname a of
       None \<Rightarrow> alias_name a
     | Some n \<Rightarrow> if n \<noteq> [] then n else alias_name a)"

definition split_first :: "char \<Rightarrow> string \<Rightarrow> string" where
  \<comment> \<open>\<open>s.split(sep)[0]\<close>\<close>
  "split_first sep s = takeWhile (\<lambda>c. c \<noteq> sep) s"

section \<open>shouldSkipDecoratorLine (prod.py, lines 43 to 86)\<close>

definition decoratorMatch :: "string \<Rightarrow> string option" where
  \<comment> \<open>group 1 of \<open>re.match(r'@([\w.]+)\s*\(', stripped)\<close>. The three classes are disjoint,
      so the longest run of word characters and dots is the only candidate for the group.\<close>
  "decoratorMatch stripped = (case stripped of
       [] \<Rightarrow> None
     | c # rest \<Rightarrow>
         if c \<noteq> CHR ''@'' then None
         else (let nm = takeWhile (\<lambda>c. isword c \<or> c = CHR ''.'') rest;
                   after = dropWhile isspace (dropWhile (\<lambda>c. isword c \<or> c = CHR ''.'') rest)
               in if nm = [] then None
                  else (case after of
                          [] \<Rightarrow> None
                        | d # _ \<Rightarrow> if d = CHR ''('' then Some nm else None)))"

fun importBinds :: "string \<Rightarrow> string \<Rightarrow> node \<Rightarrow> bool" where
  \<comment> \<open>the body of the loop over the nodes: does this node make the function return True\<close>
  "importBinds decoratorName baseName (ImportFrom m names) =
     (m = Some ''commentlogger'' \<and>
      list_ex (\<lambda>a. baseName = importedName a \<or> decoratorName = importedName a) names)"
| "importBinds decoratorName baseName (Import names) =
     list_ex (\<lambda>a. alias_name a = ''commentlogger'' \<and>
        baseName = (case asname a of None \<Rightarrow> ''commentlogger''
                    | Some n \<Rightarrow> if n \<noteq> [] then n else ''commentlogger'')) names"
| "importBinds decoratorName baseName _ = False"

definition shouldSkipDecoratorLine :: "(string \<Rightarrow> node option) \<Rightarrow> string \<Rightarrow> string \<Rightarrow> bool" where
  "shouldSkipDecoratorLine ast_parse line sourceCode =
     (let stripped = strip line
      in if \<not> startswith stripped ''@'' then False
         else (case decoratorMatch stripped of
                 None \<Rightarrow> False
               | Some decoratorName \<Rightarrow>
                   (let baseName = split_first CHR ''.'' decoratorName
                    in case ast_parse sourceCode of
                         None \<Rightarrow> False
                       | Some tree \<Rightarrow> list_ex (importBinds decoratorName baseName) (walk tree))))"

section \<open>extractLoggerInfo (prod.py, lines 89 to 149)\<close>

fun addImports :: "node \<Rightarrow> string set \<Rightarrow> string set" where
  "addImports (ImportFrom m names) clNames =
     (if m = Some ''commentlogger''
      then fold (\<lambda>a cl. insert (importedName a) cl) names clNames
      else clNames)"
| "addImports (Import names) clNames =
     fold (\<lambda>a cl. if alias_name a = ''commentlogger'' then insert (importedName a) cl else cl)
       names clNames"
| "addImports _ clNames = clNames"

definition decoratorNameOf :: "string set \<Rightarrow> expr \<Rightarrow> string option" where
  \<comment> \<open>lines 126 to 134, on \<open>decorator.func\<close>\<close>
  "decoratorNameOf clNames func = (case func of
       Name ident \<Rightarrow> Some ident
     | Attribute val attr \<Rightarrow>
         (case val of
            Name moduleName \<Rightarrow>
              if moduleName \<in> clNames then Some (moduleName @ ''.'' @ attr) else None
          | _ \<Rightarrow> None)
     | _ \<Rightarrow> None)"

definition visitDecorator ::
  "string set \<Rightarrow> string \<Rightarrow> expr \<Rightarrow> string option \<times> string set \<Rightarrow> string option \<times> string set" where
  \<comment> \<open>lines 125 to 144: the state is \<open>(loggerName, decoratedFunctions)\<close>\<close>
  "visitDecorator clNames fname decorator st = (case decorator of
       Call func args \<Rightarrow>
         (case decoratorNameOf clNames func of
            None \<Rightarrow> st
          | Some decoratorName \<Rightarrow>
              if decoratorName \<noteq> [] \<and>
                 (decoratorName \<in> clNames \<or> split_first CHR ''.'' decoratorName \<in> clNames)
              then (case args of
                      [] \<Rightarrow> st
                    | arg # _ \<Rightarrow>
                        (case arg of
                           Name ident \<Rightarrow> (Some ident, insert fname (snd st))
                         | _ \<Rightarrow> st))
              else st)
     | _ \<Rightarrow> st)"

fun visitNode :: "string set \<Rightarrow> node \<Rightarrow> string option \<times> string set \<Rightarrow> string option \<times> string set" where
  "visitNode clNames (FunctionDef nm decorator_list lineno end_lineno body) st =
     fold (visitDecorator clNames nm) decorator_list st"
| "visitNode clNames (AsyncFunctionDef nm decorator_list lineno end_lineno body) st =
     fold (visitDecorator clNames nm) decorator_list st"
| "visitNode clNames _ st = st"

definition extractLoggerInfo :: "(string \<Rightarrow> node option) \<Rightarrow> string \<Rightarrow> string option \<times> string set" where
  "extractLoggerInfo ast_parse sourceCode = (case ast_parse sourceCode of
       None \<Rightarrow> (None, {})
     | Some tree \<Rightarrow>
         (let clNames = fold addImports (walk tree) {}
          in fold (visitNode clNames) (walk tree) (None, {})))"

section \<open>injectLogging (prod.py, lines 152 to 241)\<close>

definition islinebreak :: "char \<Rightarrow> bool" where
  \<comment> \<open>the line boundaries of \<open>str.splitlines\<close>: LF, VT, FF, CR, FS, GS, RS, NEL\<close>
  "islinebreak c = (let n = (of_char c :: nat) in
     (10 \<le> n \<and> n \<le> 13) \<or> (28 \<le> n \<and> n \<le> 30) \<or> n = 133)"

fun splitlines_from :: "string \<Rightarrow> string \<Rightarrow> string list" where
  \<comment> \<open>\<open>cur\<close> is the line read so far; CR LF is one boundary; no line follows the last
      boundary\<close>
  "splitlines_from cur [] = (if cur = [] then [] else [cur])"
| "splitlines_from cur [c] = (if islinebreak c then [cur] else [cur @ [c]])"
| "splitlines_from cur (c # d # cs) =
     (if islinebreak c
      then cur # (if c = CHR 0x0D \<and> d = CHR 0x0A then splitlines_from [] cs
                  else splitlines_from [] (d # cs))
      else splitlines_from (cur @ [c]) (d # cs))"

definition splitlines :: "string \<Rightarrow> string list" where
  "splitlines s = splitlines_from [] s"

fun join :: "string \<Rightarrow> string list \<Rightarrow> string" where
  \<comment> \<open>\<open>sep.join(xs)\<close>\<close>
  "join sep [] = []"
| "join sep [x] = x"
| "join sep (x # y # ys) = x @ sep @ join sep (y # ys)"

definition commentMatch :: "string \<Rightarrow> string option" where
  \<comment> \<open>group 1 of \<open>re.search(r'#\s*(.*)', line)\<close>: the search succeeds at the first
      \<open>#\<close>; the dot stops at a line feed\<close>
  "commentMatch line =
     (if CHR ''#'' \<in> set line
      then Some (takeWhile (\<lambda>c. c \<noteq> CHR 0x0A)
                  (dropWhile isspace (drop 1 (dropWhile (\<lambda>c. c \<noteq> CHR ''#'') line))))
      else None)"

definition indentOf :: "string \<Rightarrow> string" where
  \<comment> \<open>group 1 of \<open>re.match(r'^(\s*)', line)\<close>, which always matches\<close>
  "indentOf line = takeWhile isspace line"

definition atImportPoint :: "string \<Rightarrow> nat \<Rightarrow> bool" where
  \<comment> \<open>the condition of lines 196 to 200\<close>
  "atImportPoint line i =
     (let stripped = strip line
      in \<not> startswith stripped ''#'' \<and>
         \<not> startswith stripped [CHR 0x22, CHR 0x22, CHR 0x22] \<and>
         \<not> startswith stripped [CHR 0x27, CHR 0x27, CHR 0x27] \<and>
         stripped \<noteq> [] \<and>
         i > 0)"

definition logStatement :: "string \<Rightarrow> string \<Rightarrow> string \<Rightarrow> string \<Rightarrow> string" where
  \<comment> \<open>\<open>f'{indent}{loggerName}.{logLevel.lower()}("{logMessage}")'\<close>\<close>
  "logStatement indent loggerName logLevel logMessage =
     indent @ loggerName @ ''.'' @ lower logLevel @ ''('' @ [CHR 0x22] @ logMessage @ [CHR 0x22] @ '')''"

text \<open>The variables that are set before the loop and read in it.\<close>

record env =
  sourceCode :: string
  loggerName :: string
  decoratedFunctions :: "string set"
  lineToFunction :: "int \<rightharpoonup> string"
  importsLogging :: bool

definition injects :: "env \<Rightarrow> nat \<Rightarrow> string \<Rightarrow> bool" where
  \<comment> \<open>lines 209 to 219: is a statement appended for the line at index \<open>i\<close>\<close>
  "injects e i line = (case commentMatch line of
       None \<Rightarrow> False
     | Some g \<Rightarrow>
         (let preCommentCode = strip (split_first CHR ''#'' line);
              currFunc = lineToFunction e (int i + 1)
          in preCommentCode \<noteq> [] \<and>
             (case currFunc of None \<Rightarrow> False | Some f \<Rightarrow> f \<in> decoratedFunctions e) \<and>
             CHR ''@'' \<notin> set preCommentCode))"

definition injected :: "env \<Rightarrow> string \<Rightarrow> string" where
  \<comment> \<open>lines 212 to 222: the statement appended for a line with a comment\<close>
  "injected e line =
     (let commentText = strip (case commentMatch line of Some g \<Rightarrow> g | None \<Rightarrow> []);
          indent = indentOf line;
          (logLevel, logMessage) = parseComment commentText
      in logStatement indent (loggerName e) logLevel logMessage)"

definition loopBody ::
  "(string \<Rightarrow> node option) \<Rightarrow> env \<Rightarrow> nat \<Rightarrow> string \<Rightarrow> string list \<times> bool \<Rightarrow> string list \<times> bool" where
  \<comment> \<open>one turn of the loop, on \<open>(newLines, addedImports)\<close>\<close>
  "loopBody ast_parse e i line st =
     (let (newLines, addedImports) = st;
          (newLines, addedImports) =
            (if \<not> addedImports \<and> \<not> importsLogging e \<and> atImportPoint line i
             then (newLines @ [''import logging'', []], True)
             else (newLines, addedImports))
      in if shouldSkipDecoratorLine ast_parse line (sourceCode e)
         then (newLines, addedImports)
         else (let newLines = (if injects e i line then newLines @ [injected e line] else newLines)
               in (newLines @ [line], addedImports)))"

function rewriteLoop ::
  "(string \<Rightarrow> node option) \<Rightarrow> env \<Rightarrow> string list \<Rightarrow> nat \<Rightarrow> string list \<times> bool \<Rightarrow> string list \<times> bool" where
  \<comment> \<open>\<open>while i < len(lines)\<close>\<close>
  "rewriteLoop ast_parse e lines i st =
     (if i < length lines
      then rewriteLoop ast_parse e lines (i + 1) (loopBody ast_parse e i (lines ! i) st)
      else st)"
  by pat_completeness auto
termination
  by (relation "measure (\<lambda>(ast_parse, e, lines, i, st). length lines - i)") auto

declare rewriteLoop.simps [simp del]

definition stopOf :: "int \<Rightarrow> int option \<Rightarrow> int" where
  \<comment> \<open>\<open>node.end_lineno + 1 if node.end_lineno else node.lineno + 1\<close>\<close>
  "stopOf lineno end_lineno = (case end_lineno of
       None \<Rightarrow> lineno + 1
     | Some e \<Rightarrow> if e \<noteq> 0 then e + 1 else lineno + 1)"

fun spanLines :: "node \<Rightarrow> (int \<rightharpoonup> string) \<Rightarrow> (int \<rightharpoonup> string)" where
  \<comment> \<open>lines 184 to 186; \<open>range(a, b)\<close> is \<open>[a..b - 1]\<close>\<close>
  "spanLines (FunctionDef nm decorator_list lineno end_lineno body) m =
     fold (\<lambda>i m. m(i \<mapsto> nm)) [lineno..stopOf lineno end_lineno - 1] m"
| "spanLines (AsyncFunctionDef nm decorator_list lineno end_lineno body) m =
     fold (\<lambda>i m. m(i \<mapsto> nm)) [lineno..stopOf lineno end_lineno - 1] m"
| "spanLines _ m = m"

definition lineToFunctionOf :: "(string \<Rightarrow> node option) \<Rightarrow> string \<Rightarrow> (int \<rightharpoonup> string)" where
  \<comment> \<open>lines 179 to 188\<close>
  "lineToFunctionOf ast_parse src = (case ast_parse src of
       None \<Rightarrow> Map.empty
     | Some tree \<Rightarrow> fold spanLines (walk tree) Map.empty)"

definition loggerNameOf :: "string option \<Rightarrow> string" where
  \<comment> \<open>lines 168 to 171; an empty name is as false as \<open>None\<close>\<close>
  "loggerNameOf detectedLogger = (case detectedLogger of
       None \<Rightarrow> ''logger''
     | Some n \<Rightarrow> if n \<noteq> [] then n else ''logger'')"

definition envOf :: "(string \<Rightarrow> node option) \<Rightarrow> string \<Rightarrow> env" where
  \<comment> \<open>lines 166 to 188\<close>
  "envOf ast_parse src =
     (let (detectedLogger, decorated) = extractLoggerInfo ast_parse src
      in \<lparr> sourceCode = src,
           loggerName = loggerNameOf detectedLogger,
           decoratedFunctions = decorated,
           lineToFunction = lineToFunctionOf ast_parse src,
           importsLogging = sublist ''import logging'' src \<rparr>)"

definition newLinesOf :: "(string \<Rightarrow> node option) \<Rightarrow> string \<Rightarrow> string list" where
  \<comment> \<open>\<open>newLines\<close> when the loop ends\<close>
  "newLinesOf ast_parse src =
     fst (rewriteLoop ast_parse (envOf ast_parse src) (splitlines src) 0 ([], False))"

definition injectLogging :: "(string \<Rightarrow> node option) \<Rightarrow> string \<Rightarrow> string" where
  \<comment> \<open>the text returned; reading the input file and writing or printing the result are
      left to the caller\<close>
  "injectLogging ast_parse src = join [CHR 0x0A] (newLinesOf ast_parse src)"

section \<open>Notions used to state the properties\<close>

definition bootstrap :: "string list" where
  \<comment> \<open>the two lines appended at lines 201 and 202\<close>
  "bootstrap = [''import logging'', []]"

definition emitted :: "(string \<Rightarrow> node option) \<Rightarrow> env \<Rightarrow> nat \<times> string \<Rightarrow> string list" where
  \<comment> \<open>what lines 205 to 225 append for the line \<open>snd il\<close> at index \<open>fst il\<close>\<close>
  "emitted ast_parse e il =
     (if shouldSkipDecoratorLine ast_parse (snd il) (sourceCode e) then []
      else (if injects e (fst il) (snd il) then [injected e (snd il)] else []) @ [snd il])"

definition numbered :: "string list \<Rightarrow> (nat \<times> string) list" where
  \<comment> \<open>the lines with their indices, from 0\<close>
  "numbered lines = zip [0..<length lines] lines"

definition importIndex :: "string list \<Rightarrow> nat" where
  \<comment> \<open>the index of the first line at which the condition of lines 196 to 200 holds, or
      the number of lines when there is none\<close>
  "importIndex lines =
     length (takeWhile (\<lambda>il. \<not> atImportPoint (snd il) (fst il)) (numbered lines))"

definition keptLines :: "(string \<Rightarrow> node option) \<Rightarrow> string \<Rightarrow> string list" where
  \<comment> \<open>the lines of the source that the test of line 205 lets through\<close>
  "keptLines ast_parse src =
     filter (\<lambda>l. \<not> shouldSkipDecoratorLine ast_parse l src) (splitlines src)"

definition clNamesOf :: "node \<Rightarrow> string set" where
  \<comment> \<open>\<open>clNames\<close> after the loop of lines 106 to 116\<close>
  "clNamesOf tree = fold addImports (walk tree) {}"

definition isMarker :: "string set \<Rightarrow> expr \<Rightarrow> bool" where
  \<comment> \<open>lines 126 to 139: the callee of a decorator call passes the test of line 136\<close>
  "isMarker clNames func = (case decoratorNameOf clNames func of
       None \<Rightarrow> False
     | Some decoratorName \<Rightarrow>
         decoratorName \<noteq> [] \<and>
         (decoratorName \<in> clNames \<or> split_first CHR ''.'' decoratorName \<in> clNames))"

fun loggerArg :: "expr list \<Rightarrow> string option" where
  \<comment> \<open>lines 140 to 143: the first positional argument, when it is a bare identifier\<close>
  "loggerArg (Name ident # rest) = Some ident"
| "loggerArg _ = None"

definition recorded :: "string set \<Rightarrow> expr \<Rightarrow> string option" where
  \<comment> \<open>the logger name that lines 125 to 144 take from one decorator, if any\<close>
  "recorded clNames decorator = (case decorator of
       Call func args \<Rightarrow> if isMarker clNames func then loggerArg args else None
     | _ \<Rightarrow> None)"

fun decoratorsOf :: "node \<Rightarrow> (string \<times> expr list) option" where
  \<comment> \<open>the name and the decorators of a function definition\<close>
  "decoratorsOf (FunctionDef nm decorator_list lineno end_lineno body) = Some (nm, decorator_list)"
| "decoratorsOf (AsyncFunctionDef nm decorator_list lineno end_lineno body) = Some (nm, decorator_list)"
| "decoratorsOf _ = None"

definition instrumentations :: "string set \<Rightarrow> node \<Rightarrow> (string \<times> string) list" where
  \<comment> \<open>the pairs (logger name, function name) recorded at one node, in the order of its
      decorators\<close>
  "instrumentations clNames n = (case decoratorsOf n of
       None \<Rightarrow> []
     | Some (nm, decorator_list) \<Rightarrow>
         map (\<lambda>ident. (ident, nm)) (List.map_filter (recorded clNames) decorator_list))"

definition discovered :: "(string \<Rightarrow> node option) \<Rightarrow> string \<Rightarrow> (string \<times> string) list" where
  \<comment> \<open>the pairs recorded over the whole walk, in its order; none when parsing fails\<close>
  "discovered ast_parse src = (case ast_parse src of
       None \<Rightarrow> []
     | Some tree \<Rightarrow> concat (map (instrumentations (clNamesOf tree)) (walk tree)))"

definition sameUpToBootstrap :: "string \<Rightarrow> string \<Rightarrow> bool" where
  \<comment> \<open>the output text is the input text, or the input text with the import line and the
      blank line put in at some position\<close>
  "sameUpToBootstrap inp out =
     (out = inp \<or>
      list_ex (\<lambda>k. out = take k inp @ ''import logging'' @ [CHR 0x0A, CHR 0x0A] @ drop k inp)
        [0..<Suc (length inp)])"

text \<open>
  Whether the tree has an import statement of a module: \<open>import m\<close> among the names of
  an \<open>import\<close>, or \<open>from m import ...\<close>.
\<close>

fun importsModule :: "string \<Rightarrow> node \<Rightarrow> bool" where
  "importsModule m (Import names) = list_ex (\<lambda>a. alias_name a = m) names"
| "importsModule m (ImportFrom md names) = (md = Some m)"
| "importsModule m _ = False"

definition loggingImported :: "node \<Rightarrow> bool" where
  "loggingImported tree = list_ex (importsModule ''logging'') (walk tree)"

section \<open>Sample programs\<close>

definition text_of :: "string list \<Rightarrow> string" where
  \<comment> \<open>the text of a file with these lines, each ended by a line feed\<close>
  "text_of ls = concat (map (\<lambda>l. l @ [CHR 0x0A]) ls)"

text \<open>
  A function opted into logging, with a classified comment. The tree is the one
  \<open>ast.parse\<close> gives for the text: a decorated definition starts at its \<open>def\<close> line.
\<close>

definition ex1_lines :: "string list" where
  "ex1_lines =
     [''from commentlogger import logcomments'',
      ''@logcomments(log)'',
      ''def f():'',
      ''    x = 1  # error: disk full'']"

definition ex1_tree :: node where
  "ex1_tree = Module
     [ImportFrom (Some ''commentlogger'') [Alias ''logcomments'' None],
      FunctionDef ''f'' [Call (Name ''logcomments'') [Name ''log'']] 3 (Some 4) [OtherNode []]]"

definition ex1_parse :: "string \<Rightarrow> node option" where
  "ex1_parse s = (if s = text_of ex1_lines then Some ex1_tree else None)"

text \<open>The same function with an empty comment on its last line.\<close>

definition ex2_lines :: "string list" where
  "ex2_lines =
     [''from commentlogger import logcomments'',
      ''@logcomments(log)'',
      ''def f():'',
      ''    x = 1  #'']"

definition ex2_parse :: "string \<Rightarrow> node option" where
  "ex2_parse s = (if s = text_of ex2_lines then Some ex1_tree else None)"

text \<open>A marker decorator without arguments: no function is instrumented.\<close>

definition ex3_lines :: "string list" where
  "ex3_lines =
     [''import logging'',
      ''from commentlogger import logcomments'',
      ''@logcomments()'',
      ''def f():'',
      ''    pass  # note'']"

definition ex3_tree :: node where
  "ex3_tree = Module
     [Import [Alias ''logging'' None],
      ImportFrom (Some ''commentlogger'') [Alias ''logcomments'' None],
      FunctionDef ''f'' [Call (Name ''logcomments'') []] 4 (Some 5) [OtherNode []]]"

definition ex3_parse :: "string \<Rightarrow> node option" where
  "ex3_parse s = (if s = text_of ex3_lines then Some ex3_tree else None)"

text \<open>A file that starts with code.\<close>

definition ex4_lines :: "string list" where
  "ex4_lines = [''import os'', ''x = 1'']"

definition ex4_tree :: node where
  "ex4_tree = Module [Import [Alias ''os'' None], OtherNode []]"

definition ex4_parse :: "string \<Rightarrow> node option" where
  "ex4_parse s = (if s = text_of ex4_lines then Some ex4_tree else None)"

text \<open>Two definitions of one name; the marker call of the second has no argument.\<close>

definition ex5_lines :: "string list" where
  "ex5_lines =
     [''from commentlogger import logcomments'',
      ''@logcomments(log)'',
      ''def f(): pass'',
      ''@logcomments()'',
      ''def f():'',
      ''    x = 1  # note'']"

definition ex5_tree :: node where
  "ex5_tree = Module
     [ImportFrom (Some ''commentlogger'') [Alias ''logcomments'' None],
      FunctionDef ''f'' [Call (Name ''logcomments'') [Name ''log'']] 3 (Some 3) [OtherNode []],
      FunctionDef ''f'' [Call (Name ''logcomments'') []] 5 (Some 6) [OtherNode []]]"

definition ex5_parse :: "string \<Rightarrow> node option" where
  "ex5_parse s = (if s = text_of ex5_lines then Some ex5_tree else None)"

text \<open>A text that does not parse.\<close>

definition ex6_lines :: "string list" where
  "ex6_lines = [''def f(:'', ''    x = 1  # note'']"

definition ex6_parse :: "string \<Rightarrow> node option" where
  "ex6_parse s = None"

text \<open>Two instrumented functions with different logger names.\<close>

definition ex7_lines :: "string list" where
  "ex7_lines =
     [''from commentlogger import logcomments'',
      ''@logcomments(log_a)'',
      ''def f():'',
      ''    x = 1  # one'',
      ''@logcomments(log_b)'',
      ''def g():'',
      ''    y = 2  # two'']"

definition ex7_tree :: node where
  "ex7_tree = Module
     [ImportFrom (Some ''commentlogger'') [Alias ''logcomments'' None],
      FunctionDef ''f'' [Call (Name ''logcomments'') [Name ''log_a'']] 3 (Some 4) [OtherNode []],
      FunctionDef ''g'' [Call (Name ''logcomments'') [Name ''log_b'']] 6 (Some 7) [OtherNode []]]"

definition ex7_parse :: "string \<Rightarrow> node option" where
  "ex7_parse s = (if s = text_of ex7_lines then Some ex7_tree else None)"

text \<open>A file that starts with code and imports logging together with another module.\<close>

definition ex8_lines :: "string list" where
  "ex8_lines = [''import os, logging'', ''x = 1'']"

definition ex8_tree :: node where
  "ex8_tree = Module [Import [Alias ''os'' None, Alias ''logging'' None], OtherNode []]"

definition ex8_parse :: "string \<Rightarrow> node option" where
  "ex8_parse s = (if s = text_of ex8_lines then Some ex8_tree else None)"

text \<open>
  The same import, followed by a function whose marker decorator has no argument: no
  function is instrumented.
\<close>

definition ex9_lines :: "string list" where
  "ex9_lines =
     [''import os, logging'',
      ''from commentlogger import logcomments'',
      ''@logcomments()'',
      ''def f():'',
      ''    pass  # note'']"

definition ex9_tree :: node where
  "ex9_tree = Module
     [Import [Alias ''os'' None, Alias ''logging'' None],
      ImportFrom (Some ''commentlogger'') [Alias ''logcomments'' None],
      FunctionDef ''f'' [Call (Name ''logcomments'') []] 4 (Some 5) [OtherNode []]]"

definition ex9_parse :: "string \<Rightarrow> node option" where
  "ex9_parse s = (if s = text_of ex9_lines then Some ex9_tree else None)"

section \<open>Evaluation and helper lemmas\<close>

lemmas str_defs = isspace_def isword_def lstrip_def rstrip_def strip_def upper_char_def upper_def
  lower_char_def lower_def startswith_def partition_str_def split_first_def

subsection \<open>The level table\<close>

lemma LOGLEVELS_eq:
  "LOGLEVELS = [''CRITICAL'', ''DEBUG'', ''ERROR'', ''FATAL'', ''INFO'', ''NOTSET'', ''WARNING'']"
  by (simp add: LOGLEVELS_def LOGLEVELS_of_def dedupLevels_def nameToLevel_def hasLongerAlias_def
      pop_def startswith_def)

lemma hasLongerAlias_iff:
  "hasLongerAlias tbl k v \<longleftrightarrow> (\<exists>k'. (k', v) \<in> set tbl \<and> strict_prefix k k')"
  by (auto simp: hasLongerAlias_def list_ex_iff startswith_def strict_prefix_def)

lemma fold_pop:
  "fold (\<lambda>(k, v) d. if Q k v then pop k d else d) xs d =
     filter (\<lambda>(k', v'). \<not> (\<exists>v. (k', v) \<in> set xs \<and> Q k' v)) d"
proof (induction xs arbitrary: d)
  case Nil
  then show ?case by simp
next
  case (Cons x xs)
  obtain k v where x: "x = (k, v)" by (cases x)
  show ?case
    unfolding x by (auto simp: Cons.IH pop_def intro!: filter_cong)
qed

lemma set_LOGLEVELS_of:
  assumes "distinct (map fst tbl)"
  shows "set (LOGLEVELS_of tbl) = {k. \<exists>v. (k, v) \<in> set tbl \<and> \<not> hasLongerAlias tbl k v}"
proof -
  have same: "v = v'" if "(k, v) \<in> set tbl" "(k, v') \<in> set tbl" for k v v'
    using assms that by (meson eq_key_imp_eq_value)
  show ?thesis
    unfolding LOGLEVELS_of_def dedupLevels_def fold_pop
    using same by (auto simp: image_iff) (force, metis)
qed

lemma find_each:
  "find (\<lambda>M. prefix ''CRITICAL'' M) LOGLEVELS = Some ''CRITICAL''"
  "find (\<lambda>M. prefix ''DEBUG'' M) LOGLEVELS = Some ''DEBUG''"
  "find (\<lambda>M. prefix ''ERROR'' M) LOGLEVELS = Some ''ERROR''"
  "find (\<lambda>M. prefix ''FATAL'' M) LOGLEVELS = Some ''FATAL''"
  "find (\<lambda>M. prefix ''INFO'' M) LOGLEVELS = Some ''INFO''"
  "find (\<lambda>M. prefix ''NOTSET'' M) LOGLEVELS = Some ''NOTSET''"
  "find (\<lambda>M. prefix ''WARNING'' M) LOGLEVELS = Some ''WARNING''"
  by (simp_all add: LOGLEVELS_eq)
lemma upper_each:
  "upper ''CRITICAL'' = ''CRITICAL''"
  "upper ''DEBUG'' = ''DEBUG''"
  "upper ''ERROR'' = ''ERROR''"
  "upper ''FATAL'' = ''FATAL''"
  "upper ''INFO'' = ''INFO''"
  "upper ''NOTSET'' = ''NOTSET''"
  "upper ''WARNING'' = ''WARNING''"
  by (simp_all add: upper_def upper_char_def)

lemma find_own_name: "find (\<lambda>M. prefix L M) LOGLEVELS = Some L \<and> upper L = L" if "L \<in> set LOGLEVELS"
proof -
  from that have "L = ''CRITICAL'' \<or> L = ''DEBUG'' \<or> L = ''ERROR'' \<or> L = ''FATAL''
    \<or> L = ''INFO'' \<or> L = ''NOTSET'' \<or> L = ''WARNING''"
    unfolding LOGLEVELS_eq by simp
  then show ?thesis
    by (elim disjE; hypsubst) (simp_all only: find_each upper_each simp_thms)
qed

lemma takeWhile_upto: "c \<notin> set xs \<Longrightarrow> takeWhile (\<lambda>x. x \<noteq> c) (xs @ c # ys) = xs"
  by (induction xs) auto

lemma dropWhile_upto: "c \<notin> set xs \<Longrightarrow> dropWhile (\<lambda>x. x \<noteq> c) (xs @ c # ys) = c # ys"
  by (induction xs) auto

subsection \<open>The loop as a fold over the numbered lines\<close>

lemma rewriteLoop_fold:
  "rewriteLoop ast_parse e lines i st =
     fold (\<lambda>il. loopBody ast_parse e (fst il) (snd il)) (zip [i..<length lines] (drop i lines)) st"
proof (induction ast_parse e lines i st rule: rewriteLoop.induct)
  case (1 ast_parse e lines i st)
  show ?case
  proof (cases "i < length lines")
    case True
    then have z: "zip [i..<length lines] (drop i lines) =
        (i, lines ! i) # zip [i + 1..<length lines] (drop (i + 1) lines)"
      by (simp add: upt_conv_Cons Cons_nth_drop_Suc [symmetric])
    show ?thesis
      using True 1 by (subst rewriteLoop.simps) (simp add: z)
  next
    case False
    then show ?thesis by (subst rewriteLoop.simps) simp
  qed
qed

lemma loopBody_eq:
  "loopBody ast_parse e i line (nl, a) =
     (nl @ (if \<not> a \<and> \<not> importsLogging e \<and> atImportPoint line i then bootstrap else [])
         @ emitted ast_parse e (i, line),
      a \<or> (\<not> importsLogging e \<and> atImportPoint line i))"
  by (simp add: loopBody_def emitted_def bootstrap_def)

lemma fold_body_added:
  "fold (\<lambda>il. loopBody ast_parse e (fst il) (snd il)) zs (nl, True) =
     (nl @ concat (map (emitted ast_parse e) zs), True)"
  by (induction zs arbitrary: nl) (simp_all add: loopBody_eq)

lemma fold_body_imported:
  "importsLogging e \<Longrightarrow>
   fold (\<lambda>il. loopBody ast_parse e (fst il) (snd il)) zs (nl, a) =
     (nl @ concat (map (emitted ast_parse e) zs), a)"
  by (induction zs arbitrary: nl) (simp_all add: loopBody_eq)

lemma fold_body_fresh:
  "\<not> importsLogging e \<Longrightarrow>
   fold (\<lambda>il. loopBody ast_parse e (fst il) (snd il)) zs (nl, False) =
     (let k = length (takeWhile (\<lambda>il. \<not> atImportPoint (snd il) (fst il)) zs)
      in (nl @ concat (map (emitted ast_parse e) (take k zs))
             @ (if k < length zs then bootstrap else [])
             @ concat (map (emitted ast_parse e) (drop k zs)),
          k < length zs))"
proof (induction zs arbitrary: nl)
  case Nil
  then show ?case by simp
next
  case (Cons z zs)
  show ?case
  proof (cases "atImportPoint (snd z) (fst z)")
    case True
    then show ?thesis using Cons.prems
      by (simp add: loopBody_eq fold_body_added)
  next
    case False
    then show ?thesis using Cons.prems Cons.IH
      by (simp add: loopBody_eq Let_def)
  qed
qed

lemma newLinesOf_eq:
  "newLinesOf ast_parse src =
     (let e = envOf ast_parse src; zs = numbered (splitlines src); k = importIndex (splitlines src)
      in concat (map (emitted ast_parse e) (take k zs))
         @ (if \<not> importsLogging e \<and> k < length zs then bootstrap else [])
         @ concat (map (emitted ast_parse e) (drop k zs)))"
proof (cases "importsLogging (envOf ast_parse src)")
  case True
  have "concat (map (emitted ast_parse (envOf ast_parse src)) (numbered (splitlines src))) =
        concat (map (emitted ast_parse (envOf ast_parse src))
          (take (importIndex (splitlines src)) (numbered (splitlines src)) @
           drop (importIndex (splitlines src)) (numbered (splitlines src))))"
    by simp
  then show ?thesis using True
    unfolding newLinesOf_def rewriteLoop_fold Let_def
    by (simp add: fold_body_imported numbered_def del: append_take_drop_id)
next
  case False
  then show ?thesis
    unfolding newLinesOf_def rewriteLoop_fold
    by (simp add: fold_body_fresh numbered_def importIndex_def Let_def)
qed

lemma map_snd_numbered: "map snd (numbered ls) = ls"
  by (simp add: numbered_def)

lemma length_numbered: "length (numbered ls) = length ls"
  by (simp add: numbered_def)

lemma sourceCode_envOf: "sourceCode (envOf ast_parse src) = src"
  by (simp add: envOf_def split: prod.splits)

lemma decorated_envOf: "decoratedFunctions (envOf ast_parse src) = snd (extractLoggerInfo ast_parse src)"
  by (simp add: envOf_def split: prod.splits)

lemma imports_envOf: "importsLogging (envOf ast_parse src) = sublist ''import logging'' src"
  by (simp add: envOf_def split: prod.splits)

lemma lineToFunction_envOf: "lineToFunction (envOf ast_parse src) = lineToFunctionOf ast_parse src"
  by (simp add: envOf_def split: prod.splits)

lemma loggerName_envOf:
  "loggerName (envOf ast_parse src) = loggerNameOf (fst (extractLoggerInfo ast_parse src))"
  by (simp add: envOf_def split: prod.splits)

subsection \<open>Stripping\<close>

lemma isspace_not_hash: "isspace c \<Longrightarrow> c \<noteq> CHR ''#''"
  by (auto simp: isspace_def)

lemma isspace_not_name: "isspace c \<Longrightarrow> \<not> (isword c \<or> c = CHR ''.'')"
  by (auto simp: isspace_def isword_def Let_def)

lemma in_dropWhile: "x \<in> set xs \<Longrightarrow> \<not> P x \<Longrightarrow> x \<in> set (dropWhile P xs)"
  by (induction xs) auto

lemma nonspace_in_strip: "x \<in> set s \<Longrightarrow> \<not> isspace x \<Longrightarrow> x \<in> set (strip s)"
  by (simp add: strip_def lstrip_def rstrip_def in_dropWhile)

lemma rstrip_prefix: "prefix (rstrip s) s"
proof -
  have "rev s = takeWhile isspace (rev s) @ dropWhile isspace (rev s)" by simp
  then have "s = rev (dropWhile isspace (rev s)) @ rev (takeWhile isspace (rev s))"
    by (metis rev_append rev_rev_ident)
  then show ?thesis unfolding rstrip_def by (metis prefixI)
qed

lemma strip_Cons_lstrip: "strip s = c # r \<Longrightarrow> \<exists>r'. lstrip s = c # r'"
  using rstrip_prefix [of "lstrip s"] by (auto simp: strip_def prefix_def)

lemma lstrip_decomp: "s = takeWhile isspace s @ lstrip s"
  by (simp add: lstrip_def)

subsection \<open>The lines that are let through\<close>

lemma emitted_skip:
  "shouldSkipDecoratorLine ast_parse (snd z) (sourceCode e) \<Longrightarrow> emitted ast_parse e z = []"
  by (simp add: emitted_def)

lemma emitted_keep:
  "\<not> shouldSkipDecoratorLine ast_parse (snd z) (sourceCode e) \<Longrightarrow>
   emitted ast_parse e z = (if injects e (fst z) (snd z) then [injected e (snd z)] else []) @ [snd z]"
  by (simp add: emitted_def)

lemma subseq_emitted:
  "subseq (map snd (filter (\<lambda>il. \<not> shouldSkipDecoratorLine ast_parse (snd il) (sourceCode e)) zs))
     (concat (map (emitted ast_parse e) zs))"
proof (induction zs)
  case Nil
  then show ?case by simp
next
  case (Cons z zs)
  show ?case
  proof (cases "shouldSkipDecoratorLine ast_parse (snd z) (sourceCode e)")
    case True
    then show ?thesis using Cons.IH by (simp add: emitted_skip)
  next
    case False
    have "subseq (snd z # map snd (filter (\<lambda>il. \<not> shouldSkipDecoratorLine ast_parse (snd il) (sourceCode e)) zs))
        (snd z # concat (map (emitted ast_parse e) zs))"
      using Cons.IH by simp
    then have "subseq (snd z # map snd (filter (\<lambda>il. \<not> shouldSkipDecoratorLine ast_parse (snd il) (sourceCode e)) zs))
        ((if injects e (fst z) (snd z) then [injected e (snd z)] else []) @
          snd z # concat (map (emitted ast_parse e) zs))"
      by (rule list_emb_append2)
    then show ?thesis using False by (simp add: emitted_keep)
  qed
qed

lemma keptLines_numbered:
  "keptLines ast_parse src =
     map snd (filter (\<lambda>il. \<not> shouldSkipDecoratorLine ast_parse (snd il) src) (numbered (splitlines src)))"
proof -
  have "filter (\<lambda>l. \<not> shouldSkipDecoratorLine ast_parse l src) (map snd (numbered (splitlines src))) =
      map snd (filter (\<lambda>il. \<not> shouldSkipDecoratorLine ast_parse (snd il) src) (numbered (splitlines src)))"
    by (simp add: filter_map comp_def)
  then show ?thesis by (simp add: keptLines_def map_snd_numbered)
qed

lemma subseq_newLinesOf: "subseq (keptLines ast_parse src) (newLinesOf ast_parse src)"
proof -
  define e where "e = envOf ast_parse src"
  define zs where "zs = numbered (splitlines src)"
  define k where "k = importIndex (splitlines src)"
  define keep where "keep = (\<lambda>il :: nat \<times> string. \<not> shouldSkipDecoratorLine ast_parse (snd il) (sourceCode e))"
  have src: "sourceCode e = src" by (simp add: e_def sourceCode_envOf)
  have a: "subseq (map snd (filter keep (take k zs))) (concat (map (emitted ast_parse e) (take k zs)))"
    unfolding keep_def by (rule subseq_emitted)
  have b: "subseq (map snd (filter keep (drop k zs))) (concat (map (emitted ast_parse e) (drop k zs)))"
    unfolding keep_def by (rule subseq_emitted)
  have b': "subseq (map snd (filter keep (drop k zs)))
      ((if \<not> importsLogging e \<and> k < length zs then bootstrap else []) @
       concat (map (emitted ast_parse e) (drop k zs)))"
    using b by (rule list_emb_append2)
  have "map snd (filter keep zs) = map snd (filter keep (take k zs)) @ map snd (filter keep (drop k zs))"
    by (metis append_take_drop_id filter_append map_append)
  moreover have "keptLines ast_parse src = map snd (filter keep zs)"
    by (simp add: keptLines_numbered keep_def src zs_def)
  moreover have "newLinesOf ast_parse src =
      concat (map (emitted ast_parse e) (take k zs)) @
      ((if \<not> importsLogging e \<and> k < length zs then bootstrap else []) @
       concat (map (emitted ast_parse e) (drop k zs)))"
    by (simp add: newLinesOf_eq Let_def e_def zs_def k_def)
  ultimately show ?thesis
    using list_emb_append_mono [OF a b'] by simp
qed

lemma subseq_mem: "subseq xs ys \<Longrightarrow> x \<in> set xs \<Longrightarrow> x \<in> set ys"
  by (induction rule: list_emb.induct) auto

lemma skip_startswith_at:
  "shouldSkipDecoratorLine ast_parse line src \<Longrightarrow> \<exists>r. strip line = CHR ''@'' # r"
  by (auto simp: shouldSkipDecoratorLine_def Let_def startswith_def prefix_def split: if_splits)

lemma skip_has_at:
  assumes "shouldSkipDecoratorLine ast_parse line src"
  shows "CHR ''@'' \<in> set (strip (split_first CHR ''#'' line))"
proof -
  from assms obtain r where "strip line = CHR ''@'' # r"
    using skip_startswith_at by blast
  then obtain r' where r': "lstrip line = CHR ''@'' # r'"
    using strip_Cons_lstrip by blast
  define ws where "ws = takeWhile isspace line"
  have line: "line = ws @ CHR ''@'' # r'"
    using lstrip_decomp [of line] r' by (simp add: ws_def)
  have "\<forall>c \<in> set ws. c \<noteq> CHR ''#''"
    unfolding ws_def using isspace_not_hash by (auto dest: set_takeWhileD)
  then have "takeWhile (\<lambda>c. c \<noteq> CHR ''#'') (ws @ CHR ''@'' # r') =
      ws @ takeWhile (\<lambda>c. c \<noteq> CHR ''#'') (CHR ''@'' # r')"
    by (simp add: takeWhile_append2)
  then have "CHR ''@'' \<in> set (split_first CHR ''#'' line)"
    unfolding split_first_def by (subst line) simp
  moreover have "\<not> isspace CHR ''@''" by (simp add: isspace_def)
  ultimately show ?thesis by (rule nonspace_in_strip)
qed

lemma injects_iff:
  "injects e i line \<longleftrightarrow>
     CHR ''#'' \<in> set line \<and>
     strip (takeWhile (\<lambda>c. c \<noteq> CHR ''#'') line) \<noteq> [] \<and>
     CHR ''@'' \<notin> set (strip (takeWhile (\<lambda>c. c \<noteq> CHR ''#'') line)) \<and>
     (\<exists>f. lineToFunction e (int i + 1) = Some f \<and> f \<in> decoratedFunctions e)"
  by (auto simp: injects_def commentMatch_def split_first_def Let_def split: option.splits)

subsection \<open>The sample programs, evaluated\<close>

lemmas line_defs = text_of_def splitlines_def islinebreak_def

lemmas tree_defs = walk_def importedName_def visitDecorator_def decoratorNameOf_def loggerNameOf_def
  lineToFunctionOf_def stopOf_def extractLoggerInfo_def

lemmas body_defs = emitted_def shouldSkipDecoratorLine_def decoratorMatch_def injects_def
  injected_def commentMatch_def indentOf_def parseComment_def resolveLevel_def LOGLEVELS_eq
  logStatement_def atImportPoint_def bootstrap_def Let_def

lemma ex1_split: "splitlines (text_of ex1_lines) = ex1_lines"
  by (simp add: ex1_lines_def line_defs)

lemma ex1_parse_eq: "ex1_parse (text_of ex1_lines) = Some ex1_tree"
  by (simp add: ex1_parse_def)

lemma ex1_nosub: "\<not> sublist ''import logging'' (text_of ex1_lines)"
  by (simp add: ex1_lines_def text_of_def sublist_Cons_right)

lemma ex1_env: "envOf ex1_parse (text_of ex1_lines) =
    \<lparr> sourceCode = text_of ex1_lines, loggerName = ''log'', decoratedFunctions = {''f''},
      lineToFunction = [3 \<mapsto> ''f'', 4 \<mapsto> ''f''], importsLogging = False \<rparr>"
  by (simp add: envOf_def ex1_parse_eq ex1_nosub ex1_tree_def tree_defs str_defs)

lemma ex1_index: "importIndex ex1_lines = 1"
  by (simp add: importIndex_def numbered_def ex1_lines_def atImportPoint_def str_defs upt_conv_Cons)

lemma ex1_numbered:
  "numbered ex1_lines =
     [(0, ex1_lines ! 0), (1, ex1_lines ! 1), (2, ex1_lines ! 2), (3, ex1_lines ! 3)]"
  by (simp add: numbered_def ex1_lines_def upt_conv_Cons)

lemma ex1_skip: "shouldSkipDecoratorLine ex1_parse ''@logcomments(log)'' (text_of ex1_lines)"
  by (simp add: ex1_parse_eq ex1_tree_def walk_def importedName_def body_defs str_defs)

lemma ex1_out: "newLinesOf ex1_parse (text_of ex1_lines) =
   [''from commentlogger import logcomments'', ''import logging'', [],
    ''def f():'', ''    log.error('' @ [CHR 0x22] @ ''disk full'' @ [CHR 0x22] @ '')'',
    ''    x = 1  # error: disk full'']"
  unfolding newLinesOf_eq ex1_split ex1_index ex1_numbered ex1_env
  by (simp add: ex1_parse_eq [unfolded ex1_lines_def] ex1_tree_def ex1_lines_def walk_def
      importedName_def body_defs str_defs)

lemma ex1_kept: "keptLines ex1_parse (text_of ex1_lines) =
   [''from commentlogger import logcomments'', ''def f():'', ''    x = 1  # error: disk full'']"
  unfolding keptLines_def ex1_split
  by (simp add: ex1_parse_eq [unfolded ex1_lines_def] ex1_tree_def ex1_lines_def walk_def importedName_def body_defs str_defs)

lemma ex2_split: "splitlines (text_of ex2_lines) = ex2_lines"
  by (simp add: ex2_lines_def line_defs)

lemma ex2_parse_eq: "ex2_parse (text_of ex2_lines) = Some ex1_tree"
  by (simp add: ex2_parse_def)

lemma ex2_nosub: "\<not> sublist ''import logging'' (text_of ex2_lines)"
  by (simp add: ex2_lines_def text_of_def sublist_Cons_right)

lemma ex2_env: "envOf ex2_parse (text_of ex2_lines) =
    \<lparr> sourceCode = text_of ex2_lines, loggerName = ''log'', decoratedFunctions = {''f''},
      lineToFunction = [3 \<mapsto> ''f'', 4 \<mapsto> ''f''], importsLogging = False \<rparr>"
  by (simp add: envOf_def ex2_parse_eq ex2_nosub ex1_tree_def tree_defs str_defs)

lemma ex2_index: "importIndex ex2_lines = 1"
  by (simp add: importIndex_def numbered_def ex2_lines_def atImportPoint_def str_defs upt_conv_Cons)

lemma ex2_numbered:
  "numbered ex2_lines =
     [(0, ex2_lines ! 0), (1, ex2_lines ! 1), (2, ex2_lines ! 2), (3, ex2_lines ! 3)]"
  by (simp add: numbered_def ex2_lines_def upt_conv_Cons)

lemma ex2_out: "newLinesOf ex2_parse (text_of ex2_lines) =
   [''from commentlogger import logcomments'', ''import logging'', [],
    ''def f():'', ''    log.info('' @ [CHR 0x22, CHR 0x22] @ '')'',
    ''    x = 1  #'']"
  unfolding newLinesOf_eq ex2_split ex2_index ex2_numbered ex2_env
  by (simp add: ex2_parse_eq [unfolded ex2_lines_def] ex1_tree_def ex2_lines_def walk_def
      importedName_def body_defs str_defs)

lemma ex3_split: "splitlines (text_of ex3_lines) = ex3_lines"
  by (simp add: ex3_lines_def line_defs)

lemma ex3_parse_eq: "ex3_parse (text_of ex3_lines) = Some ex3_tree"
  by (simp add: ex3_parse_def)

lemma ex3_sub: "sublist ''import logging'' (text_of ex3_lines)"
  by (simp add: ex3_lines_def text_of_def sublist_Cons_right)

lemma ex3_info: "extractLoggerInfo ex3_parse (text_of ex3_lines) = (None, {})"
  by (simp add: ex3_parse_eq ex3_tree_def tree_defs str_defs)

lemma ex3_env: "envOf ex3_parse (text_of ex3_lines) =
    \<lparr> sourceCode = text_of ex3_lines, loggerName = ''logger'', decoratedFunctions = {},
      lineToFunction = [4 \<mapsto> ''f'', 5 \<mapsto> ''f''], importsLogging = True \<rparr>"
  by (simp add: envOf_def ex3_parse_eq ex3_sub ex3_tree_def tree_defs str_defs)

lemma ex3_kept: "keptLines ex3_parse (text_of ex3_lines) =
   [''import logging'', ''from commentlogger import logcomments'', ''def f():'', ''    pass  # note'']"
  unfolding keptLines_def ex3_split
  by (simp add: ex3_parse_eq [unfolded ex3_lines_def] ex3_tree_def ex3_lines_def walk_def importedName_def body_defs str_defs)

lemma ex3_index: "importIndex ex3_lines = 1"
  by (simp add: importIndex_def numbered_def ex3_lines_def atImportPoint_def str_defs upt_conv_Cons)

lemma ex3_numbered:
  "numbered ex3_lines =
     [(0, ex3_lines ! 0), (1, ex3_lines ! 1), (2, ex3_lines ! 2), (3, ex3_lines ! 3),
      (4, ex3_lines ! 4)]"
  by (simp add: numbered_def ex3_lines_def upt_conv_Cons)

lemma ex3_out: "newLinesOf ex3_parse (text_of ex3_lines) =
   [''import logging'', ''from commentlogger import logcomments'', ''def f():'', ''    pass  # note'']"
  unfolding newLinesOf_eq ex3_split ex3_index ex3_numbered ex3_env
  by (simp add: ex3_parse_eq [unfolded ex3_lines_def] ex3_tree_def ex3_lines_def walk_def
      importedName_def body_defs str_defs)

lemma ex4_split: "splitlines (text_of ex4_lines) = ex4_lines"
  by (simp add: ex4_lines_def line_defs)

lemma ex4_parse_eq: "ex4_parse (text_of ex4_lines) = Some ex4_tree"
  by (simp add: ex4_parse_def)

lemma ex4_nosub: "\<not> sublist ''import logging'' (text_of ex4_lines)"
  by (simp add: ex4_lines_def text_of_def sublist_Cons_right)

lemma ex4_env: "envOf ex4_parse (text_of ex4_lines) =
    \<lparr> sourceCode = text_of ex4_lines, loggerName = ''logger'', decoratedFunctions = {},
      lineToFunction = Map.empty, importsLogging = False \<rparr>"
  by (simp add: envOf_def ex4_parse_eq ex4_nosub ex4_tree_def tree_defs str_defs)

lemma ex4_index: "importIndex ex4_lines = 1"
  by (simp add: importIndex_def numbered_def ex4_lines_def atImportPoint_def str_defs upt_conv_Cons)

lemma ex4_numbered: "numbered ex4_lines = [(0, ex4_lines ! 0), (1, ex4_lines ! 1)]"
  by (simp add: numbered_def ex4_lines_def upt_conv_Cons)

lemma ex4_out: "newLinesOf ex4_parse (text_of ex4_lines) =
   [''import os'', ''import logging'', [], ''x = 1'']"
  unfolding newLinesOf_eq ex4_split ex4_index ex4_numbered ex4_env
  by (simp add: ex4_parse_eq [unfolded ex4_lines_def] ex4_tree_def ex4_lines_def walk_def
      importedName_def body_defs str_defs)

lemma ex5_split: "splitlines (text_of ex5_lines) = ex5_lines"
  by (simp add: ex5_lines_def line_defs)

lemma ex5_parse_eq: "ex5_parse (text_of ex5_lines) = Some ex5_tree"
  by (simp add: ex5_parse_def)

lemma ex5_nosub: "\<not> sublist ''import logging'' (text_of ex5_lines)"
  by (simp add: ex5_lines_def text_of_def sublist_Cons_right)

lemma ex5_info: "extractLoggerInfo ex5_parse (text_of ex5_lines) = (Some ''log'', {''f''})"
  by (simp add: ex5_parse_eq ex5_tree_def tree_defs str_defs)

lemma ex5_env: "envOf ex5_parse (text_of ex5_lines) =
    \<lparr> sourceCode = text_of ex5_lines, loggerName = ''log'', decoratedFunctions = {''f''},
      lineToFunction = [3 \<mapsto> ''f'', 5 \<mapsto> ''f'', 6 \<mapsto> ''f''], importsLogging = False \<rparr>"
  by (simp add: envOf_def ex5_parse_eq ex5_nosub ex5_tree_def tree_defs str_defs)

lemma ex5_index: "importIndex ex5_lines = 1"
  by (simp add: importIndex_def numbered_def ex5_lines_def atImportPoint_def str_defs upt_conv_Cons)

lemma ex5_numbered:
  "numbered ex5_lines =
     [(0, ex5_lines ! 0), (1, ex5_lines ! 1), (2, ex5_lines ! 2), (3, ex5_lines ! 3),
      (4, ex5_lines ! 4), (5, ex5_lines ! 5)]"
  by (simp add: numbered_def ex5_lines_def upt_conv_Cons)

lemma ex5_out: "newLinesOf ex5_parse (text_of ex5_lines) =
   [''from commentlogger import logcomments'', ''import logging'', [],
    ''def f(): pass'', ''def f():'',
    ''    log.info('' @ [CHR 0x22] @ ''note'' @ [CHR 0x22] @ '')'',
    ''    x = 1  # note'']"
  unfolding newLinesOf_eq ex5_split ex5_index ex5_numbered ex5_env
  by (simp add: ex5_parse_eq [unfolded ex5_lines_def] ex5_tree_def ex5_lines_def walk_def
      importedName_def body_defs str_defs)

lemma ex6_split: "splitlines (text_of ex6_lines) = ex6_lines"
  by (simp add: ex6_lines_def line_defs)

lemma ex6_nosub: "\<not> sublist ''import logging'' (text_of ex6_lines)"
  by (simp add: ex6_lines_def text_of_def sublist_Cons_right)

lemma ex6_index: "importIndex ex6_lines = 1"
  by (simp add: importIndex_def numbered_def ex6_lines_def atImportPoint_def str_defs upt_conv_Cons)

lemmas disc_defs = discovered_def clNamesOf_def instrumentations_def recorded_def isMarker_def
  decoratorNameOf_def walk_def importedName_def map_filter_simps split_first_def

lemma ex3_discovered: "discovered ex3_parse (text_of ex3_lines) = []"
  by (simp add: ex3_parse_eq ex3_tree_def disc_defs)

lemma ex7_split: "splitlines (text_of ex7_lines) = ex7_lines"
  by (simp add: ex7_lines_def line_defs)

lemma ex7_parse_eq: "ex7_parse (text_of ex7_lines) = Some ex7_tree"
  by (simp add: ex7_parse_def)

lemma ex7_nosub: "\<not> sublist ''import logging'' (text_of ex7_lines)"
  by (simp add: ex7_lines_def text_of_def sublist_Cons_right)

lemma ex7_discovered:
  "discovered ex7_parse (text_of ex7_lines) = [(''log_a'', ''f''), (''log_b'', ''g'')]"
  by (simp add: ex7_parse_eq ex7_tree_def disc_defs)

lemma ex7_env: "envOf ex7_parse (text_of ex7_lines) =
    \<lparr> sourceCode = text_of ex7_lines, loggerName = ''log_b'', decoratedFunctions = {''g'', ''f''},
      lineToFunction = [3 \<mapsto> ''f'', 4 \<mapsto> ''f'', 6 \<mapsto> ''g'', 7 \<mapsto> ''g''],
      importsLogging = False \<rparr>"
  by (simp add: envOf_def ex7_parse_eq ex7_nosub ex7_tree_def tree_defs str_defs)

lemma ex7_index: "importIndex ex7_lines = 1"
  by (simp add: importIndex_def numbered_def ex7_lines_def atImportPoint_def str_defs upt_conv_Cons)

lemma ex7_numbered:
  "numbered ex7_lines =
     [(0, ex7_lines ! 0), (1, ex7_lines ! 1), (2, ex7_lines ! 2), (3, ex7_lines ! 3),
      (4, ex7_lines ! 4), (5, ex7_lines ! 5), (6, ex7_lines ! 6)]"
  by (simp add: numbered_def ex7_lines_def upt_conv_Cons)

lemma ex7_out: "newLinesOf ex7_parse (text_of ex7_lines) =
   [''from commentlogger import logcomments'', ''import logging'', [],
    ''def f():'',
    ''    log_b.info('' @ [CHR 0x22] @ ''one'' @ [CHR 0x22] @ '')'',
    ''    x = 1  # one'',
    ''def g():'',
    ''    log_b.info('' @ [CHR 0x22] @ ''two'' @ [CHR 0x22] @ '')'',
    ''    y = 2  # two'']"
  unfolding newLinesOf_eq ex7_split ex7_index ex7_numbered ex7_env
  by (simp add: ex7_parse_eq [unfolded ex7_lines_def] ex7_tree_def ex7_lines_def walk_def
      importedName_def body_defs str_defs)

lemma ex8_split: "splitlines (text_of ex8_lines) = ex8_lines"
  by (simp add: ex8_lines_def line_defs)

lemma ex8_parse_eq: "ex8_parse (text_of ex8_lines) = Some ex8_tree"
  by (simp add: ex8_parse_def)

lemma ex8_nosub: "\<not> sublist ''import logging'' (text_of ex8_lines)"
  by (simp add: ex8_lines_def text_of_def sublist_Cons_right)

lemma ex8_imported: "loggingImported ex8_tree"
  by (simp add: loggingImported_def ex8_tree_def walk_def)

lemma ex8_env: "envOf ex8_parse (text_of ex8_lines) =
    \<lparr> sourceCode = text_of ex8_lines, loggerName = ''logger'', decoratedFunctions = {},
      lineToFunction = Map.empty, importsLogging = False \<rparr>"
  by (simp add: envOf_def ex8_parse_eq ex8_nosub ex8_tree_def tree_defs str_defs)

lemma ex8_index: "importIndex ex8_lines = 1"
  by (simp add: importIndex_def numbered_def ex8_lines_def atImportPoint_def str_defs upt_conv_Cons)

lemma ex8_numbered: "numbered ex8_lines = [(0, ex8_lines ! 0), (1, ex8_lines ! 1)]"
  by (simp add: numbered_def ex8_lines_def upt_conv_Cons)

lemma ex8_out: "newLinesOf ex8_parse (text_of ex8_lines) =
   [''import os, logging'', ''import logging'', [], ''x = 1'']"
  unfolding newLinesOf_eq ex8_split ex8_index ex8_numbered ex8_env
  by (simp add: ex8_parse_eq [unfolded ex8_lines_def] ex8_tree_def ex8_lines_def walk_def
      importedName_def body_defs str_defs)

lemma ex9_split: "splitlines (text_of ex9_lines) = ex9_lines"
  by (simp add: ex9_lines_def line_defs)

lemma ex9_parse_eq: "ex9_parse (text_of ex9_lines) = Some ex9_tree"
  by (simp add: ex9_parse_def)

lemma ex9_nosub: "\<not> sublist ''import logging'' (text_of ex9_lines)"
  by (simp add: ex9_lines_def text_of_def sublist_Cons_right)

lemma ex9_imported: "loggingImported ex9_tree"
  by (simp add: loggingImported_def ex9_tree_def walk_def)

lemma ex9_info: "extractLoggerInfo ex9_parse (text_of ex9_lines) = (None, {})"
  by (simp add: ex9_parse_eq ex9_tree_def tree_defs str_defs)

lemma ex9_env: "envOf ex9_parse (text_of ex9_lines) =
    \<lparr> sourceCode = text_of ex9_lines, loggerName = ''logger'', decoratedFunctions = {},
      lineToFunction = [4 \<mapsto> ''f'', 5 \<mapsto> ''f''], importsLogging = False \<rparr>"
  by (simp add: envOf_def ex9_parse_eq ex9_nosub ex9_tree_def tree_defs str_defs)

lemma ex9_index: "importIndex ex9_lines = 1"
  by (simp add: importIndex_def numbered_def ex9_lines_def atImportPoint_def str_defs upt_conv_Cons)

lemma ex9_numbered:
  "numbered ex9_lines =
     [(0, ex9_lines ! 0), (1, ex9_lines ! 1), (2, ex9_lines ! 2), (3, ex9_lines ! 3),
      (4, ex9_lines ! 4)]"
  by (simp add: numbered_def ex9_lines_def upt_conv_Cons)

lemma ex9_kept: "keptLines ex9_parse (text_of ex9_lines) =
   [''import os, logging'', ''from commentlogger import logcomments'', ''def f():'',
    ''    pass  # note'']"
  unfolding keptLines_def ex9_split
  by (simp add: ex9_parse_eq [unfolded ex9_lines_def] ex9_tree_def ex9_lines_def walk_def
      importedName_def body_defs str_defs)

lemma ex9_out: "newLinesOf ex9_parse (text_of ex9_lines) =
   [''import os, logging'', ''import logging'', [],
    ''from commentlogger import logcomments'', ''def f():'', ''    pass  # note'']"
  unfolding newLinesOf_eq ex9_split ex9_index ex9_numbered ex9_env
  by (simp add: ex9_parse_eq [unfolded ex9_lines_def] ex9_tree_def ex9_lines_def walk_def
      importedName_def body_defs str_defs)

subsection \<open>Where the import lines go, and the output without instrumented functions\<close>

lemma numbered_nth: "j < length ls \<Longrightarrow> numbered ls ! j = (j, ls ! j)"
  by (simp add: numbered_def)

lemma importIndex_le: "importIndex ls \<le> length ls"
  unfolding importIndex_def
  using length_takeWhile_le [of "\<lambda>il. \<not> atImportPoint (snd il) (fst il)" "numbered ls"]
  by (simp add: length_numbered)

lemma importIndex_before: "j < importIndex ls \<Longrightarrow> \<not> atImportPoint (ls ! j) j"
proof -
  assume j: "j < importIndex ls"
  define Q where "Q = (\<lambda>il :: nat \<times> string. \<not> atImportPoint (snd il) (fst il))"
  from j have jt: "j < length (takeWhile Q (numbered ls))"
    by (simp add: importIndex_def Q_def)
  then have "takeWhile Q (numbered ls) ! j \<in> set (takeWhile Q (numbered ls))"
    by (rule nth_mem)
  then have "Q (takeWhile Q (numbered ls) ! j)"
    by (rule set_takeWhileD [THEN conjunct2])
  moreover have "takeWhile Q (numbered ls) ! j = numbered ls ! j"
    using jt by (rule takeWhile_nth)
  moreover have "j < length ls"
    using j importIndex_le [of ls] by simp
  ultimately show ?thesis
    by (simp add: numbered_nth Q_def)
qed

lemma importIndex_at:
  "importIndex ls < length ls \<Longrightarrow> atImportPoint (ls ! importIndex ls) (importIndex ls)"
proof -
  assume k: "importIndex ls < length ls"
  define Q where "Q = (\<lambda>il :: nat \<times> string. \<not> atImportPoint (snd il) (fst il))"
  from k have "length (takeWhile Q (numbered ls)) < length (numbered ls)"
    by (simp add: importIndex_def Q_def length_numbered)
  then have "\<not> Q (numbered ls ! length (takeWhile Q (numbered ls)))"
    by (rule nth_length_takeWhile)
  then show ?thesis
    using k by (simp add: importIndex_def [symmetric] Q_def numbered_nth)
qed

lemma take_numbered: "map snd (take k (numbered ls)) = take k ls"
  by (simp add: take_map [symmetric] map_snd_numbered)

lemma drop_numbered: "map snd (drop k (numbered ls)) = drop k ls"
  by (simp add: drop_map [symmetric] map_snd_numbered)

lemma concat_emitted_plain:
  assumes "\<And>i line. \<not> injects e i line"
  shows "concat (map (emitted ast_parse e) zs) =
     filter (\<lambda>l. \<not> shouldSkipDecoratorLine ast_parse l (sourceCode e)) (map snd zs)"
  by (induction zs) (simp_all add: emitted_def assms)

lemma no_injects_plain: "decoratedFunctions e = {} \<Longrightarrow> \<not> injects e i line"
  by (simp add: injects_iff)

lemma newLinesOf_plain:
  assumes "snd (extractLoggerInfo ast_parse src) = {}"
  shows "newLinesOf ast_parse src =
     filter (\<lambda>l. \<not> shouldSkipDecoratorLine ast_parse l src) (take (importIndex (splitlines src)) (splitlines src)) @
     (if \<not> sublist ''import logging'' src \<and> importIndex (splitlines src) < length (splitlines src)
      then bootstrap else []) @
     filter (\<lambda>l. \<not> shouldSkipDecoratorLine ast_parse l src) (drop (importIndex (splitlines src)) (splitlines src))"
proof -
  have d: "decoratedFunctions (envOf ast_parse src) = {}"
    using assms by (simp add: decorated_envOf)
  have n: "\<And>i line. \<not> injects (envOf ast_parse src) i line"
    using d by (rule no_injects_plain)
  show ?thesis
    unfolding newLinesOf_eq Let_def concat_emitted_plain [of "envOf ast_parse src", OF n]
    by (simp add: take_numbered drop_numbered sourceCode_envOf imports_envOf length_numbered)
qed

lemma splitlines_Nil: "splitlines [] = []"
  by (simp add: splitlines_def)

lemma sameUpToBootstrap_length:
  "sameUpToBootstrap inp out \<Longrightarrow> length out = length inp \<or> length out = length inp + 16"
  by (auto simp: sameUpToBootstrap_def list_ex_iff)

lemma sameUpToBootstrap_cases:
  "sameUpToBootstrap inp out \<Longrightarrow> out = inp \<or> length out = length inp + 16"
  by (auto simp: sameUpToBootstrap_def list_ex_iff)

subsection \<open>What the walk over the definitions records\<close>

lemma visitDecorator_eq:
  "visitDecorator cl nm d st = (case recorded cl d of
       None \<Rightarrow> st
     | Some ident \<Rightarrow> (Some ident, insert nm (snd st)))"
proof (cases d)
  case (Call func args)
  show ?thesis
  proof (cases "isMarker cl func")
    case True
    then show ?thesis
      unfolding Call
      by (cases args rule: loggerArg.cases)
        (auto simp: visitDecorator_def recorded_def isMarker_def split: option.splits)
  next
    case False
    then show ?thesis
      unfolding Call
      by (auto simp: visitDecorator_def recorded_def isMarker_def split: option.splits)
  qed
qed (simp_all add: visitDecorator_def recorded_def)

lemma fold_visitDecorator:
  "fold (visitDecorator cl nm) ds st =
     (if List.map_filter (recorded cl) ds = [] then st
      else (Some (last (List.map_filter (recorded cl) ds)), insert nm (snd st)))"
proof (induction ds arbitrary: st)
  case Nil
  then show ?case by (simp add: map_filter_simps)
next
  case (Cons d ds)
  have step: "fold (visitDecorator cl nm) (d # ds) st =
      fold (visitDecorator cl nm) ds (visitDecorator cl nm d st)"
    by simp
  show ?case
    unfolding step Cons.IH
    by (cases "recorded cl d") (simp_all add: visitDecorator_eq [of cl nm d st] map_filter_simps)
qed

lemma visitNode_eq:
  "visitNode cl n st =
     (if instrumentations cl n = [] then st
      else (Some (fst (last (instrumentations cl n))), snd st \<union> snd ` set (instrumentations cl n)))"
proof -
  have f: "fold (visitDecorator cl nm) ds st =
     (if map (\<lambda>ident. (ident, nm)) (List.map_filter (recorded cl) ds) = [] then st
      else (Some (fst (last (map (\<lambda>ident. (ident, nm)) (List.map_filter (recorded cl) ds)))),
            snd st \<union> snd ` set (map (\<lambda>ident. (ident, nm)) (List.map_filter (recorded cl) ds))))"
    for nm ds
  proof (cases "List.map_filter (recorded cl) ds = []")
    case True
    then show ?thesis by (simp add: fold_visitDecorator)
  next
    case False
    then have "snd ` set (map (\<lambda>ident. (ident, nm)) (List.map_filter (recorded cl) ds)) = {nm}"
      by (simp add: image_image image_constant_conv)
    then show ?thesis using False
      by (simp add: fold_visitDecorator last_map)
  qed
  show ?thesis
    by (cases n) (simp_all add: instrumentations_def f)
qed

lemma fold_visitNode:
  "fold (visitNode cl) ns st =
     (if concat (map (instrumentations cl) ns) = [] then st
      else (Some (fst (last (concat (map (instrumentations cl) ns)))),
            snd st \<union> snd ` set (concat (map (instrumentations cl) ns))))"
proof (induction ns arbitrary: st)
  case Nil
  then show ?case by simp
next
  case (Cons n ns)
  have step: "fold (visitNode cl) (n # ns) st = fold (visitNode cl) ns (visitNode cl n st)"
    by simp
  show ?case
    unfolding step Cons.IH
    by (simp add: visitNode_eq [of cl n st] Un_assoc image_Un)
qed

lemma extractLoggerInfo_eq:
  "extractLoggerInfo ast_parse src =
     (if discovered ast_parse src = [] then None else Some (fst (last (discovered ast_parse src))),
      snd ` set (discovered ast_parse src))"
  by (cases "ast_parse src")
    (simp_all add: extractLoggerInfo_def discovered_def clNamesOf_def fold_visitNode Let_def)

lemma injected_shape:
  "\<exists>lvl msg. injected e line = logStatement (indentOf line) (loggerName e) lvl msg"
  by (auto simp: injected_def Let_def split: prod.splits)

lemma emitted_lines:
  "x \<in> set (emitted ast_parse e z) \<Longrightarrow> x = snd z \<or> x = injected e (snd z)"
  by (auto simp: emitted_def split: if_splits)

lemma concat_emitted_lines:
  "x \<in> set (concat (map (emitted ast_parse e) zs)) \<Longrightarrow>
   \<exists>z \<in> set zs. x = snd z \<or> x = injected e (snd z)"
  by (induction zs) (auto dest: emitted_lines)

lemma newLinesOf_lines:
  assumes "x \<in> set (newLinesOf ast_parse src)"
  shows "x \<in> set (splitlines src) \<or> x \<in> set bootstrap \<or>
         (\<exists>line \<in> set (splitlines src). x = injected (envOf ast_parse src) line)"
proof -
  define e where "e = envOf ast_parse src"
  define zs where "zs = numbered (splitlines src)"
  define k where "k = importIndex (splitlines src)"
  from assms have "x \<in> set (concat (map (emitted ast_parse e) (take k zs))) \<or> x \<in> set bootstrap \<or>
      x \<in> set (concat (map (emitted ast_parse e) (drop k zs)))"
    unfolding newLinesOf_eq Let_def e_def zs_def k_def by (auto split: if_splits)
  then obtain z where z: "z \<in> set zs \<or> x \<in> set bootstrap"
      and x: "x \<in> set bootstrap \<or> x = snd z \<or> x = injected e (snd z)"
    using concat_emitted_lines [of x ast_parse e "take k zs"]
      concat_emitted_lines [of x ast_parse e "drop k zs"]
    by (meson in_set_takeD in_set_dropD)
  show ?thesis
  proof (cases "x \<in> set bootstrap")
    case True
    then show ?thesis by simp
  next
    case False
    with z have "z \<in> set zs" by simp
    then have "snd z \<in> set (splitlines src)"
      unfolding zs_def by (metis map_snd_numbered image_eqI set_map)
    with x False show ?thesis unfolding e_def by blast
  qed
qed

subsection \<open>Marker calls without a logger argument, and the shape of a decorator line\<close>

lemma loggerArg_None_iff:
  "loggerArg args = None \<longleftrightarrow> args = [] \<or> (\<exists>a rest. args = a # rest \<and> (\<forall>ident. a \<noteq> Name ident))"
  by (cases args rule: loggerArg.cases) auto

lemma takeWhile_name:
  assumes "\<forall>c \<in> set dn. isword c \<or> c = CHR ''.''" and "\<forall>c \<in> set ws. isspace c"
  shows "takeWhile (\<lambda>c. isword c \<or> c = CHR ''.'') (dn @ ws @ CHR ''('' # rest) = dn"
    and "dropWhile isspace (dropWhile (\<lambda>c. isword c \<or> c = CHR ''.'') (dn @ ws @ CHR ''('' # rest)) =
         CHR ''('' # rest"
proof -
  have p: "\<not> (isword CHR ''('' \<or> CHR ''('' = CHR ''.'')" "\<not> isspace CHR ''(''"
    by (simp_all add: isword_def isspace_def)
  have stop: "takeWhile (\<lambda>c. isword c \<or> c = CHR ''.'') (ws @ CHR ''('' # rest) = []"
    using assms(2) p(1) isspace_not_name by (cases ws) auto
  have stop': "dropWhile (\<lambda>c. isword c \<or> c = CHR ''.'') (ws @ CHR ''('' # rest) = ws @ CHR ''('' # rest"
    using assms(2) p(1) isspace_not_name by (cases ws) auto
  show "takeWhile (\<lambda>c. isword c \<or> c = CHR ''.'') (dn @ ws @ CHR ''('' # rest) = dn"
    using assms(1) stop by simp
  have "dropWhile (\<lambda>c. isword c \<or> c = CHR ''.'') (dn @ ws @ CHR ''('' # rest) = ws @ CHR ''('' # rest"
    using assms(1) stop' by simp
  moreover have "dropWhile isspace (ws @ CHR ''('' # rest) = CHR ''('' # rest"
    using assms(2) p(2) by simp
  ultimately show "dropWhile isspace (dropWhile (\<lambda>c. isword c \<or> c = CHR ''.'') (dn @ ws @ CHR ''('' # rest)) =
         CHR ''('' # rest"
    by simp
qed

lemma decoratorMatch_shape:
  assumes "dn \<noteq> []" and "\<forall>c \<in> set dn. isword c \<or> c = CHR ''.''" and "\<forall>c \<in> set ws. isspace c"
  shows "decoratorMatch (CHR ''@'' # dn @ ws @ CHR ''('' # rest) = Some dn"
  using assms(1) by (simp add: decoratorMatch_def Let_def takeWhile_name [OF assms(2,3)])

lemma skip_shape:
  assumes "strip line = CHR ''@'' # dn @ ws @ CHR ''('' # rest"
    and "dn \<noteq> []" and "\<forall>c \<in> set dn. isword c \<or> c = CHR ''.''" and "\<forall>c \<in> set ws. isspace c"
    and "ast_parse src = Some tree"
  shows "shouldSkipDecoratorLine ast_parse line src \<longleftrightarrow>
         list_ex (importBinds dn (split_first CHR ''.'' dn)) (walk tree)"
  unfolding shouldSkipDecoratorLine_def Let_def assms(1) decoratorMatch_shape [OF assms(2,3,4)]
  by (simp add: assms(5) startswith_def)

lemma not_decorated:
  assumes "ast_parse src = Some tree"
    and "\<forall>n \<in> set (walk tree). \<forall>ds. decoratorsOf n = Some (nm, ds) \<longrightarrow>
           (\<forall>d \<in> set ds. \<forall>func args. d = Call func args \<and> isMarker (clNamesOf tree) func \<longrightarrow>
              loggerArg args = None)"
  shows "nm \<notin> snd (extractLoggerInfo ast_parse src)"
proof
  assume "nm \<in> snd (extractLoggerInfo ast_parse src)"
  then obtain ident where "(ident, nm) \<in> set (discovered ast_parse src)"
    by (auto simp: extractLoggerInfo_eq)
  then obtain n where n: "n \<in> set (walk tree)"
      and i: "(ident, nm) \<in> set (instrumentations (clNamesOf tree) n)"
    using assms(1) by (auto simp: discovered_def)
  from i obtain ds where ds: "decoratorsOf n = Some (nm, ds)"
      and r: "ident \<in> set (List.map_filter (recorded (clNamesOf tree)) ds)"
    by (cases "decoratorsOf n") (auto simp: instrumentations_def)
  from r obtain d where d: "d \<in> set ds" and rd: "recorded (clNamesOf tree) d = Some ident"
    by (auto simp: List.map_filter_def)
  from rd obtain func args where c: "d = Call func args" "isMarker (clNamesOf tree) func"
      "loggerArg args = Some ident"
    by (auto simp: recorded_def split: expr.splits if_splits)
  from assms(2) n ds d c(1,2) have "loggerArg args = None" by blast
  with c(3) show False by simp
qed

section \<open>Preservation of the source lines\<close>

text \<open>
  Claim C1, as the code has it. Every line of the source that is not a marker-decorator
  line (a line for which \<open>shouldSkipDecoratorLine\<close> answers True) appears in the output,
  in the original order and unchanged: the loop only puts lines in between. A
  marker-decorator line generates no injection and is itself not emitted: its turn of the
  loop appends nothing, apart from the import lines when they fall due at that turn.
\<close>

theorem kept_lines_preserved:
  "subseq (keptLines ast_parse src) (newLinesOf ast_parse src) \<and>
   (shouldSkipDecoratorLine ast_parse line (sourceCode e) \<longrightarrow>
      loopBody ast_parse e i line (nl, a) =
        (nl @ (if \<not> a \<and> \<not> importsLogging e \<and> atImportPoint line i then bootstrap else []),
         a \<or> (\<not> importsLogging e \<and> atImportPoint line i)))"
proof -
  have "loopBody ast_parse e i line (nl, a) =
        (nl @ (if \<not> a \<and> \<not> importsLogging e \<and> atImportPoint line i then bootstrap else []),
         a \<or> (\<not> importsLogging e \<and> atImportPoint line i))"
    if "shouldSkipDecoratorLine ast_parse line (sourceCode e)"
    using that by (simp add: loopBody_eq emitted_skip)
  then show ?thesis
    using subseq_newLinesOf [of ast_parse src] by blast
qed

theorem kept_lines_preserved_witness:
  "shouldSkipDecoratorLine ex1_parse ''@logcomments(log)'' (text_of ex1_lines) \<and>
   loopBody ex1_parse (envOf ex1_parse (text_of ex1_lines)) 1 ''@logcomments(log)''
     ([''from commentlogger import logcomments''], False) =
     ([''from commentlogger import logcomments'', ''import logging'', []], True) \<and>
   subseq
     [''from commentlogger import logcomments'', ''def f():'', ''    x = 1  # error: disk full'']
     [''from commentlogger import logcomments'', ''import logging'', [],
      ''def f():'', ''    log.error('' @ [CHR 0x22] @ ''disk full'' @ [CHR 0x22] @ '')'',
      ''    x = 1  # error: disk full'']"
proof -
  note t = kept_lines_preserved [of ex1_parse "text_of ex1_lines" "''@logcomments(log)''"
      "envOf ex1_parse (text_of ex1_lines)" 1 "[''from commentlogger import logcomments'']" False]
  have s: "shouldSkipDecoratorLine ex1_parse ''@logcomments(log)''
      (sourceCode (envOf ex1_parse (text_of ex1_lines)))"
    unfolding sourceCode_envOf by (rule ex1_skip)
  have p: "atImportPoint ''@logcomments(log)'' 1"
    by (simp add: atImportPoint_def str_defs)
  have n: "\<not> importsLogging (envOf ex1_parse (text_of ex1_lines))"
    unfolding imports_envOf by (rule ex1_nosub)
  from t have "subseq (keptLines ex1_parse (text_of ex1_lines)) (newLinesOf ex1_parse (text_of ex1_lines))"
    by (rule conjunct1)
  then have a: "subseq
     [''from commentlogger import logcomments'', ''def f():'', ''    x = 1  # error: disk full'']
     [''from commentlogger import logcomments'', ''import logging'', [],
      ''def f():'', ''    log.error('' @ [CHR 0x22] @ ''disk full'' @ [CHR 0x22] @ '')'',
      ''    x = 1  # error: disk full'']"
    unfolding ex1_kept ex1_out .
  from t s have "loopBody ex1_parse (envOf ex1_parse (text_of ex1_lines)) 1 ''@logcomments(log)''
     ([''from commentlogger import logcomments''], False) =
     ([''from commentlogger import logcomments''] @
        (if \<not> False \<and> \<not> importsLogging (envOf ex1_parse (text_of ex1_lines)) \<and>
            atImportPoint ''@logcomments(log)'' 1 then bootstrap else []),
      False \<or> (\<not> importsLogging (envOf ex1_parse (text_of ex1_lines)) \<and>
            atImportPoint ''@logcomments(log)'' 1))"
    by (rule conjunct2 [THEN mp])
  then have b: "loopBody ex1_parse (envOf ex1_parse (text_of ex1_lines)) 1 ''@logcomments(log)''
     ([''from commentlogger import logcomments''], False) =
     ([''from commentlogger import logcomments'', ''import logging'', []], True)"
    using p n by (simp only: bootstrap_def simp_thms if_True append.simps)
  from ex1_skip b a show ?thesis by (intro conjI)
qed

text \<open>
  Claim C1 as stated fails: the second line of the first sample program is a
  marker-decorator line, and the output does not have it.
\<close>

theorem decorator_line_dropped_counterexample:
  "splitlines (text_of ex1_lines) ! 1 = ''@logcomments(log)'' \<and>
   ''@logcomments(log)'' \<notin> set (newLinesOf ex1_parse (text_of ex1_lines)) \<and>
   \<not> subseq (splitlines (text_of ex1_lines)) (newLinesOf ex1_parse (text_of ex1_lines))"
proof -
  have a: "splitlines (text_of ex1_lines) ! 1 = ''@logcomments(log)''"
    unfolding ex1_split by (simp add: ex1_lines_def)
  have b: "''@logcomments(log)'' \<notin> set (newLinesOf ex1_parse (text_of ex1_lines))"
    by (simp add: ex1_out)
  have m: "''@logcomments(log)'' \<in> set (splitlines (text_of ex1_lines))"
    unfolding ex1_split by (simp add: ex1_lines_def)
  have c: "\<not> subseq (splitlines (text_of ex1_lines)) (newLinesOf ex1_parse (text_of ex1_lines))"
  proof (rule notI)
    assume s: "subseq (splitlines (text_of ex1_lines)) (newLinesOf ex1_parse (text_of ex1_lines))"
    have "''@logcomments(log)'' \<in> set (newLinesOf ex1_parse (text_of ex1_lines))"
      by (rule subseq_mem [OF s m])
    with b show False by (rule notE)
  qed
  from a b c show ?thesis by (intro conjI)
qed

section \<open>When a statement is injected\<close>

text \<open>
  Claim C2, as the code has it. At every turn of the loop the lines appended are: the
  import lines when they fall due, then a log statement if and only if the line has a
  \<open>#\<close>, the text before the first \<open>#\<close> (stripped) is non-empty and has no \<open>@\<close>, and
  the function that the line-to-function map gives for the 1-based number of the line is
  in the instrumented set; then the line itself, unless it is a marker-decorator line.
  The comment text may be empty. For a marker-decorator line the condition never holds.
\<close>

theorem injection_condition:
  "loopBody ast_parse e i line (nl, a) =
     (nl @ (if \<not> a \<and> \<not> importsLogging e \<and> atImportPoint line i then bootstrap else [])
         @ (if CHR ''#'' \<in> set line \<and>
               strip (takeWhile (\<lambda>c. c \<noteq> CHR ''#'') line) \<noteq> [] \<and>
               CHR ''@'' \<notin> set (strip (takeWhile (\<lambda>c. c \<noteq> CHR ''#'') line)) \<and>
               (\<exists>f. lineToFunction e (int i + 1) = Some f \<and> f \<in> decoratedFunctions e)
            then [injected e line] else [])
         @ (if shouldSkipDecoratorLine ast_parse line (sourceCode e) then [] else [line]),
      a \<or> (\<not> importsLogging e \<and> atImportPoint line i)) \<and>
   (shouldSkipDecoratorLine ast_parse line (sourceCode e) \<longrightarrow>
      CHR ''@'' \<in> set (strip (takeWhile (\<lambda>c. c \<noteq> CHR ''#'') line)))"
proof -
  have at: "CHR ''@'' \<in> set (strip (takeWhile (\<lambda>c. c \<noteq> CHR ''#'') line))"
    if "shouldSkipDecoratorLine ast_parse line (sourceCode e)"
    using skip_has_at [OF that] by (simp add: split_first_def)
  show ?thesis
  proof (cases "shouldSkipDecoratorLine ast_parse line (sourceCode e)")
    case True
    then show ?thesis
      using at by (simp add: loopBody_eq emitted_skip)
  next
    case False
    then show ?thesis
      by (simp add: loopBody_eq emitted_keep injects_iff)
  qed
qed

theorem injection_condition_witness:
  "loopBody ex1_parse (envOf ex1_parse (text_of ex1_lines)) 3 ''    x = 1  # error: disk full''
     ([], True) =
     ([''    log.error('' @ [CHR 0x22] @ ''disk full'' @ [CHR 0x22] @ '')'',
       ''    x = 1  # error: disk full''], True) \<and>
   shouldSkipDecoratorLine ex1_parse ''@logcomments(log)''
     (sourceCode (envOf ex1_parse (text_of ex1_lines))) \<and>
   CHR ''@'' \<in> set (strip (takeWhile (\<lambda>c. c \<noteq> CHR ''#'') ''@logcomments(log)''))"
proof -
  note t = injection_condition [of ex1_parse "envOf ex1_parse (text_of ex1_lines)" 3
      "''    x = 1  # error: disk full''" "[]" True]
  note u = injection_condition [of ex1_parse "envOf ex1_parse (text_of ex1_lines)" 1
      "''@logcomments(log)''" "[]" True]
  have s: "shouldSkipDecoratorLine ex1_parse ''@logcomments(log)''
      (sourceCode (envOf ex1_parse (text_of ex1_lines)))"
    unfolding sourceCode_envOf by (rule ex1_skip)
  have k: "\<not> shouldSkipDecoratorLine ex1_parse ''    x = 1  # error: disk full''
      (sourceCode (envOf ex1_parse (text_of ex1_lines)))"
    by (simp add: shouldSkipDecoratorLine_def str_defs)
  have j: "injected (envOf ex1_parse (text_of ex1_lines)) ''    x = 1  # error: disk full'' =
      ''    log.error('' @ [CHR 0x22] @ ''disk full'' @ [CHR 0x22] @ '')''"
    unfolding ex1_env by (simp add: body_defs str_defs)
  have a: "loopBody ex1_parse (envOf ex1_parse (text_of ex1_lines)) 3 ''    x = 1  # error: disk full''
     ([], True) =
     ([''    log.error('' @ [CHR 0x22] @ ''disk full'' @ [CHR 0x22] @ '')'',
       ''    x = 1  # error: disk full''], True)"
    using t [THEN conjunct1] k j unfolding ex1_env by (simp add: str_defs)
  have b: "CHR ''@'' \<in> set (strip (takeWhile (\<lambda>c. c \<noteq> CHR ''#'') ''@logcomments(log)''))"
    using u [THEN conjunct2] s by (rule mp)
  from a s b show ?thesis by (intro conjI)
qed

text \<open>
  Claim C2 as stated fails: the last line of the second sample program has a \<open>#\<close> with
  nothing after it, so its comment text is empty, and a statement is injected before it.
\<close>

theorem empty_comment_injected_counterexample:
  "strip (case commentMatch (ex2_lines ! 3) of Some g \<Rightarrow> g | None \<Rightarrow> []) = [] \<and>
   newLinesOf ex2_parse (text_of ex2_lines) =
     [''from commentlogger import logcomments'', ''import logging'', [],
      ''def f():'', ''    log.info('' @ [CHR 0x22, CHR 0x22] @ '')'',
      ''    x = 1  #'']"
proof -
  have "strip (case commentMatch (ex2_lines ! 3) of Some g \<Rightarrow> g | None \<Rightarrow> []) = []"
    by (simp add: ex2_lines_def commentMatch_def str_defs)
  then show ?thesis using ex2_out by (intro conjI)
qed

section \<open>A file without instrumented functions\<close>

text \<open>
  Claim C3, as the code has it. When no function is instrumented, the text returned is
  made of the lines of the source (as \<open>splitlines\<close> gives them) without the
  marker-decorator lines, joined by line feeds, with the two import lines put in at most
  once; they are put in only if the text \<open>import logging\<close> does not occur in the
  source and the source is not empty. That is a test on the text, not on the imports: a
  source that imports logging in another form, as in \<open>import os, logging\<close>, still
  gets them. The text is built by joining, so the line feed that ends the source is not
  kept.
\<close>

theorem uninstrumented_output:
  assumes "snd (extractLoggerInfo ast_parse src) = {}"
  shows "\<exists>k \<le> length (keptLines ast_parse src). \<exists>b.
           injectLogging ast_parse src =
             join [CHR 0x0A]
               (take k (keptLines ast_parse src) @ (if b then bootstrap else []) @
                drop k (keptLines ast_parse src)) \<and>
           (b \<longrightarrow> \<not> sublist ''import logging'' src \<and> src \<noteq> [])"
proof -
  define keep where "keep = (\<lambda>l. \<not> shouldSkipDecoratorLine ast_parse l src)"
  define ls where "ls = splitlines src"
  define m where "m = importIndex ls"
  define b where "b \<longleftrightarrow> \<not> sublist ''import logging'' src \<and> m < length ls"
  define k where "k = length (filter keep (take m ls))"
  have kept: "keptLines ast_parse src = filter keep (take m ls) @ filter keep (drop m ls)"
    unfolding keptLines_def keep_def ls_def [symmetric]
    by (metis append_take_drop_id filter_append)
  have out: "newLinesOf ast_parse src =
      filter keep (take m ls) @ (if b then bootstrap else []) @ filter keep (drop m ls)"
    using newLinesOf_plain [OF assms] by (simp add: keep_def ls_def m_def b_def)
  have "k \<le> length (keptLines ast_parse src)"
    by (simp add: kept k_def)
  moreover have "injectLogging ast_parse src =
      join [CHR 0x0A]
        (take k (keptLines ast_parse src) @ (if b then bootstrap else []) @
         drop k (keptLines ast_parse src))"
    by (simp add: injectLogging_def out kept k_def)
  moreover have "b \<longrightarrow> \<not> sublist ''import logging'' src \<and> src \<noteq> []"
    using splitlines_Nil by (auto simp: b_def ls_def)
  ultimately show ?thesis by blast
qed

theorem uninstrumented_output_witness:
  "snd (extractLoggerInfo ex3_parse (text_of ex3_lines)) = {} \<and>
   sublist ''import logging'' (text_of ex3_lines) \<and>
   keptLines ex3_parse (text_of ex3_lines) =
     [''import logging'', ''from commentlogger import logcomments'', ''def f():'',
      ''    pass  # note''] \<and>
   injectLogging ex3_parse (text_of ex3_lines) =
     join [CHR 0x0A]
       [''import logging'', ''from commentlogger import logcomments'', ''def f():'',
        ''    pass  # note''] \<and>
   snd (extractLoggerInfo ex9_parse (text_of ex9_lines)) = {} \<and>
   injectLogging ex9_parse (text_of ex9_lines) \<noteq>
     join [CHR 0x0A] (keptLines ex9_parse (text_of ex9_lines)) \<and>
   \<not> sublist ''import logging'' (text_of ex9_lines) \<and> text_of ex9_lines \<noteq> []"
proof -
  have z: "snd (extractLoggerInfo ex3_parse (text_of ex3_lines)) = {}"
    by (simp add: ex3_info)
  from uninstrumented_output [OF z] obtain k b where
    o: "injectLogging ex3_parse (text_of ex3_lines) =
          join [CHR 0x0A]
            (take k (keptLines ex3_parse (text_of ex3_lines)) @ (if b then bootstrap else []) @
             drop k (keptLines ex3_parse (text_of ex3_lines)))"
    and b: "b \<longrightarrow> \<not> sublist ''import logging'' (text_of ex3_lines) \<and> text_of ex3_lines \<noteq> []"
    by blast
  from b ex3_sub have "\<not> b" by blast
  with o have "injectLogging ex3_parse (text_of ex3_lines) =
      join [CHR 0x0A] (keptLines ex3_parse (text_of ex3_lines))"
    by simp
  then have i3: "injectLogging ex3_parse (text_of ex3_lines) =
     join [CHR 0x0A]
       [''import logging'', ''from commentlogger import logcomments'', ''def f():'',
        ''    pass  # note'']"
    unfolding ex3_kept .
  have z9: "snd (extractLoggerInfo ex9_parse (text_of ex9_lines)) = {}"
    by (simp add: ex9_info)
  have l1: "length (injectLogging ex9_parse (text_of ex9_lines)) = 98"
    unfolding injectLogging_def ex9_out by simp
  have l2: "length (join [CHR 0x0A] (keptLines ex9_parse (text_of ex9_lines))) = 82"
    unfolding ex9_kept by simp
  have d9: "injectLogging ex9_parse (text_of ex9_lines) \<noteq>
      join [CHR 0x0A] (keptLines ex9_parse (text_of ex9_lines))"
  proof (rule notI)
    assume "injectLogging ex9_parse (text_of ex9_lines) =
      join [CHR 0x0A] (keptLines ex9_parse (text_of ex9_lines))"
    then have "length (injectLogging ex9_parse (text_of ex9_lines)) =
      length (join [CHR 0x0A] (keptLines ex9_parse (text_of ex9_lines)))"
      by (rule arg_cong)
    then show False unfolding l1 l2 by simp
  qed
  from uninstrumented_output [OF z9] obtain k9 b9 where
    o9: "injectLogging ex9_parse (text_of ex9_lines) =
          join [CHR 0x0A]
            (take k9 (keptLines ex9_parse (text_of ex9_lines)) @ (if b9 then bootstrap else []) @
             drop k9 (keptLines ex9_parse (text_of ex9_lines)))"
    and b9: "b9 \<longrightarrow> \<not> sublist ''import logging'' (text_of ex9_lines) \<and> text_of ex9_lines \<noteq> []"
    by blast
  have "b9"
  proof (rule ccontr)
    assume "\<not> b9"
    with o9 have "injectLogging ex9_parse (text_of ex9_lines) =
        join [CHR 0x0A] (keptLines ex9_parse (text_of ex9_lines))"
      by simp
    with d9 show False by (rule notE)
  qed
  with b9 have n9: "\<not> sublist ''import logging'' (text_of ex9_lines)"
      and e9: "text_of ex9_lines \<noteq> []"
    by blast+
  from z ex3_sub ex3_kept i3 z9 d9 n9 e9 show ?thesis by (intro conjI)
qed

text \<open>
  Claim C3 as stated fails. The ninth sample program has no instrumented function and
  imports logging in its first line. The import lines are put in all the same, since the
  text \<open>import logging\<close> does not occur in it; the line \<open>@logcomments()\<close> and the final
  line feed are gone; and the text returned is neither the input text nor the input text
  with the import lines put in.
\<close>

theorem uninstrumented_not_identical_counterexample:
  "ex9_parse (text_of ex9_lines) = Some ex9_tree \<and>
   snd (extractLoggerInfo ex9_parse (text_of ex9_lines)) = {} \<and>
   loggingImported ex9_tree \<and>
   newLinesOf ex9_parse (text_of ex9_lines) =
     [''import os, logging'', ''import logging'', [],
      ''from commentlogger import logcomments'', ''def f():'', ''    pass  # note''] \<and>
   ''@logcomments()'' \<in> set (splitlines (text_of ex9_lines)) \<and>
   ''@logcomments()'' \<notin> set (splitlines (injectLogging ex9_parse (text_of ex9_lines))) \<and>
   \<not> sameUpToBootstrap (text_of ex9_lines) (injectLogging ex9_parse (text_of ex9_lines))"
proof -
  have z: "snd (extractLoggerInfo ex9_parse (text_of ex9_lines)) = {}"
    by (simp add: ex9_info)
  have m: "''@logcomments()'' \<in> set (splitlines (text_of ex9_lines))"
    unfolding ex9_split by (simp add: ex9_lines_def)
  have n: "''@logcomments()'' \<notin> set (splitlines (injectLogging ex9_parse (text_of ex9_lines)))"
    unfolding injectLogging_def ex9_out by (simp add: splitlines_def islinebreak_def)
  have li: "length (text_of ex9_lines) = 98"
    by (simp add: text_of_def ex9_lines_def)
  have lo: "length (injectLogging ex9_parse (text_of ex9_lines)) = 98"
    unfolding injectLogging_def ex9_out by simp
  have s: "\<not> sameUpToBootstrap (text_of ex9_lines) (injectLogging ex9_parse (text_of ex9_lines))"
  proof (rule notI)
    assume "sameUpToBootstrap (text_of ex9_lines) (injectLogging ex9_parse (text_of ex9_lines))"
    then have "injectLogging ex9_parse (text_of ex9_lines) = text_of ex9_lines \<or>
        length (injectLogging ex9_parse (text_of ex9_lines)) = length (text_of ex9_lines) + 16"
      by (rule sameUpToBootstrap_cases)
    then have "injectLogging ex9_parse (text_of ex9_lines) = text_of ex9_lines"
      unfolding li lo by simp
    then have "splitlines (injectLogging ex9_parse (text_of ex9_lines)) = splitlines (text_of ex9_lines)"
      by (rule arg_cong)
    with m have "''@logcomments()'' \<in> set (splitlines (injectLogging ex9_parse (text_of ex9_lines)))"
      by simp
    with n show False by (rule notE)
  qed
  from ex9_parse_eq z ex9_imported ex9_out m n s show ?thesis by (intro conjI)
qed

section \<open>The import lines\<close>

text \<open>
  Claim C4, as the code has it. The two import lines are put in at most once, and only if
  the text \<open>import logging\<close> does not occur in the source. That is a test on the
  text, not on the imports: \<open>import os, logging\<close> or \<open>from logging import x\<close>
  does not count. They go immediately before what the loop emits for the line of index
  \<open>importIndex\<close>: the first line, other than the first line of the file, that is not
  blank and does not start (stripped) with \<open>#\<close> or with a triple quote. The first line
  of the file never triggers them. Whether they are put in depends on the text alone, not
  on any injection.
\<close>

theorem import_lines_placement:
  "newLinesOf ast_parse src =
     concat (map (emitted ast_parse (envOf ast_parse src))
       (take (importIndex (splitlines src)) (numbered (splitlines src)))) @
     (if \<not> sublist ''import logging'' src \<and> importIndex (splitlines src) < length (splitlines src)
      then [''import logging'', []] else []) @
     concat (map (emitted ast_parse (envOf ast_parse src))
       (drop (importIndex (splitlines src)) (numbered (splitlines src)))) \<and>
   (\<forall>j < importIndex (splitlines src). \<not> atImportPoint (splitlines src ! j) j) \<and>
   (importIndex (splitlines src) < length (splitlines src) \<longrightarrow>
      atImportPoint (splitlines src ! importIndex (splitlines src)) (importIndex (splitlines src))) \<and>
   (atImportPoint line i \<longleftrightarrow>
      0 < i \<and> strip line \<noteq> [] \<and> \<not> prefix ''#'' (strip line) \<and>
      \<not> prefix [CHR 0x22, CHR 0x22, CHR 0x22] (strip line) \<and>
      \<not> prefix [CHR 0x27, CHR 0x27, CHR 0x27] (strip line))"
proof -
  have a: "newLinesOf ast_parse src =
     concat (map (emitted ast_parse (envOf ast_parse src))
       (take (importIndex (splitlines src)) (numbered (splitlines src)))) @
     (if \<not> sublist ''import logging'' src \<and> importIndex (splitlines src) < length (splitlines src)
      then [''import logging'', []] else []) @
     concat (map (emitted ast_parse (envOf ast_parse src))
       (drop (importIndex (splitlines src)) (numbered (splitlines src))))"
    unfolding newLinesOf_eq Let_def
    by (simp add: imports_envOf length_numbered bootstrap_def)
  have b: "\<forall>j < importIndex (splitlines src). \<not> atImportPoint (splitlines src ! j) j"
    using importIndex_before by blast
  have c: "importIndex (splitlines src) < length (splitlines src) \<longrightarrow>
      atImportPoint (splitlines src ! importIndex (splitlines src)) (importIndex (splitlines src))"
    using importIndex_at by blast
  have d: "atImportPoint line i \<longleftrightarrow>
      0 < i \<and> strip line \<noteq> [] \<and> \<not> prefix ''#'' (strip line) \<and>
      \<not> prefix [CHR 0x22, CHR 0x22, CHR 0x22] (strip line) \<and>
      \<not> prefix [CHR 0x27, CHR 0x27, CHR 0x27] (strip line)"
    unfolding atImportPoint_def Let_def startswith_def by blast
  from a b c d show ?thesis by (intro conjI)
qed

theorem import_lines_placement_witness:
  "importIndex (splitlines (text_of ex4_lines)) = 1 \<and>
   \<not> atImportPoint (splitlines (text_of ex4_lines) ! 0) 0 \<and>
   atImportPoint (splitlines (text_of ex4_lines) ! 1) 1 \<and>
   \<not> sublist ''import logging'' (text_of ex4_lines) \<and>
   newLinesOf ex4_parse (text_of ex4_lines) = [''import os'', ''import logging'', [], ''x = 1'']"
proof -
  note t = import_lines_placement [of ex4_parse "text_of ex4_lines" "''x = 1''" 1]
  have i: "importIndex (splitlines (text_of ex4_lines)) = 1"
    unfolding ex4_split by (rule ex4_index)
  have l: "(1::nat) < length (splitlines (text_of ex4_lines))"
    unfolding ex4_split by (simp add: ex4_lines_def)
  from t have "\<forall>j < importIndex (splitlines (text_of ex4_lines)).
      \<not> atImportPoint (splitlines (text_of ex4_lines) ! j) j"
    by (rule conjunct2 [THEN conjunct1])
  then have b: "\<not> atImportPoint (splitlines (text_of ex4_lines) ! 0) 0"
    unfolding i by simp
  from t have "importIndex (splitlines (text_of ex4_lines)) < length (splitlines (text_of ex4_lines)) \<longrightarrow>
      atImportPoint (splitlines (text_of ex4_lines) ! importIndex (splitlines (text_of ex4_lines)))
        (importIndex (splitlines (text_of ex4_lines)))"
    by (rule conjunct2 [THEN conjunct2, THEN conjunct1])
  then have c: "atImportPoint (splitlines (text_of ex4_lines) ! 1) 1"
    unfolding i using l by simp
  from i b c ex4_nosub ex4_out show ?thesis by (intro conjI)
qed

text \<open>
  Claim C4 as stated fails. The eighth sample program imports logging in its first line,
  which is neither blank nor a comment nor the opening of a docstring. The import lines
  are put in all the same, since the text \<open>import logging\<close> does not occur in the
  source, and they are put in after the first line, not before it.
\<close>

theorem import_after_first_line_counterexample:
  "ex8_parse (text_of ex8_lines) = Some ex8_tree \<and>
   loggingImported ex8_tree \<and>
   strip (ex8_lines ! 0) \<noteq> [] \<and>
   \<not> prefix ''#'' (strip (ex8_lines ! 0)) \<and>
   \<not> prefix [CHR 0x22, CHR 0x22, CHR 0x22] (strip (ex8_lines ! 0)) \<and>
   \<not> prefix [CHR 0x27, CHR 0x27, CHR 0x27] (strip (ex8_lines ! 0)) \<and>
   splitlines (text_of ex8_lines) = ex8_lines \<and>
   newLinesOf ex8_parse (text_of ex8_lines) =
     [''import os, logging'', ''import logging'', [], ''x = 1''] \<and>
   newLinesOf ex8_parse (text_of ex8_lines) \<noteq> [''import os, logging'', ''x = 1''] \<and>
   newLinesOf ex8_parse (text_of ex8_lines) \<noteq>
     [''import logging'', [], ''import os, logging'', ''x = 1'']"
proof -
  have a: "strip (ex8_lines ! 0) \<noteq> [] \<and>
     \<not> prefix ''#'' (strip (ex8_lines ! 0)) \<and>
     \<not> prefix [CHR 0x22, CHR 0x22, CHR 0x22] (strip (ex8_lines ! 0)) \<and>
     \<not> prefix [CHR 0x27, CHR 0x27, CHR 0x27] (strip (ex8_lines ! 0))"
    by (simp add: ex8_lines_def str_defs)
  have b: "newLinesOf ex8_parse (text_of ex8_lines) \<noteq> [''import os, logging'', ''x = 1'']"
    unfolding ex8_out by simp
  have c: "newLinesOf ex8_parse (text_of ex8_lines) \<noteq>
      [''import logging'', [], ''import os, logging'', ''x = 1'']"
    unfolding ex8_out by simp
  from ex8_parse_eq ex8_imported a ex8_split ex8_out b c show ?thesis by simp
qed

section \<open>The comment classifier\<close>

text \<open>
  Claim C5, as the code has it. The comment is split at its first colon. With a colon,
  the candidate prefix is the text before it and the candidate message the text after it;
  without a colon, \<open>partition\<close> returns the whole comment as the candidate prefix and an
  empty message. An empty (stripped) prefix gives INFO with the whole comment; a prefix
  that no canonical name starts with (after upper-casing) gives INFO with the whole
  comment; a prefix that resolves gives the resolved level with the stripped message,
  which is the empty string when the comment has no colon.
\<close>

theorem parseComment_cases:
  "(CHR '':'' \<notin> set pfx \<longrightarrow>
      parseComment (pfx @ '':'' @ rest) =
        (if strip pfx = [] then (''INFO'', pfx @ '':'' @ rest)
         else (case resolveLevel (strip pfx) of
                 None \<Rightarrow> (''INFO'', pfx @ '':'' @ rest)
               | Some L \<Rightarrow> (L, strip rest)))) \<and>
   (CHR '':'' \<notin> set c \<longrightarrow>
      parseComment c =
        (if strip c = [] then (''INFO'', c)
         else (case resolveLevel (strip c) of
                 None \<Rightarrow> (''INFO'', c)
               | Some L \<Rightarrow> (L, [])))) \<and>
   (resolveLevel p = None \<longleftrightarrow> (\<forall>L \<in> set LOGLEVELS. \<not> prefix (upper p) L))"
proof -
  have a: "parseComment (pfx @ '':'' @ rest) =
        (if strip pfx = [] then (''INFO'', pfx @ '':'' @ rest)
         else (case resolveLevel (strip pfx) of
                 None \<Rightarrow> (''INFO'', pfx @ '':'' @ rest)
               | Some L \<Rightarrow> (L, strip rest)))" if "CHR '':'' \<notin> set pfx"
  proof -
    from that have t: "takeWhile (\<lambda>c. c \<noteq> CHR '':'') (pfx @ '':'' @ rest) = pfx"
      by (simp add: takeWhile_upto)
    from that have d: "dropWhile (\<lambda>c. c \<noteq> CHR '':'') (pfx @ '':'' @ rest) = '':'' @ rest"
      by (simp add: dropWhile_upto)
    show ?thesis
      unfolding parseComment_def partition_str_def t d
      by (simp split: option.splits)
  qed
  have b: "parseComment c =
        (if strip c = [] then (''INFO'', c)
         else (case resolveLevel (strip c) of
                 None \<Rightarrow> (''INFO'', c)
               | Some L \<Rightarrow> (L, [])))" if "CHR '':'' \<notin> set c"
  proof -
    from that have t: "takeWhile (\<lambda>x. x \<noteq> CHR '':'') c = c"
      by (auto simp: takeWhile_eq_all_conv)
    from that have d: "dropWhile (\<lambda>x. x \<noteq> CHR '':'') c = []"
      by auto
    have s: "strip [] = []"
      by (simp add: strip_def lstrip_def rstrip_def)
    show ?thesis
      unfolding parseComment_def partition_str_def t d
      by (simp add: s split: option.splits)
  qed
  have c: "resolveLevel p = None \<longleftrightarrow> (\<forall>L \<in> set LOGLEVELS. \<not> prefix (upper p) L)"
    by (auto simp: resolveLevel_def find_None_iff startswith_def)
  from a b c show ?thesis by blast
qed

theorem parseComment_cases_witness:
  "CHR '':'' \<notin> set ''warn'' \<and> parseComment ''warn: disk low'' = (''WARNING'', ''disk low'') \<and>
   CHR '':'' \<notin> set ''bogus'' \<and> parseComment ''bogus: text'' = (''INFO'', ''bogus: text'') \<and>
   CHR '':'' \<notin> set ''just a note'' \<and> parseComment ''just a note'' = (''INFO'', ''just a note'') \<and>
   strip [] = [] \<and> parseComment '': text'' = (''INFO'', '': text'') \<and>
   ''WARNING'' \<in> set LOGLEVELS \<and> prefix (upper ''warn'') ''WARNING'' \<and>
   resolveLevel ''warn'' \<noteq> None"
  using parseComment_cases [of "''warn''" "'' disk low''" "''just a note''" "''warn''"]
    parseComment_cases [of "''bogus''" "'' text''" "''just a note''" "''bogus''"]
    parseComment_cases [of "[]" "'' text''" "''just a note''" "''warn''"]
  by (simp add: resolveLevel_def LOGLEVELS_eq str_defs)

text \<open>
  Claim C5 as stated fails where it takes a comment without a colon to have an empty
  prefix: the comment \<open>debug\<close> has no colon, and the result is DEBUG with an empty
  message, not INFO with the comment.
\<close>

theorem parseComment_no_colon_counterexample:
  "CHR '':'' \<notin> set ''debug'' \<and> parseComment ''debug'' = (''DEBUG'', []) \<and>
   parseComment ''debug'' \<noteq> (''INFO'', ''debug'')"
  by (simp add: parseComment_def resolveLevel_def LOGLEVELS_eq str_defs)

section \<open>The logger name\<close>

text \<open>
  Claim C6. The walk over the tree records, for each function definition and each of its
  decorators that is a marker call with a bare identifier as first positional argument,
  that identifier (\<open>discovered\<close>, in the order of the walk). The name used in every
  injected statement is the identifier recorded last, one value for the whole file, or
  \<open>logger\<close> when nothing was recorded. Every line of the output is a line of the source,
  one of the two import lines, or a statement on that name. Identifiers of a parsed
  program are not empty, which the hypothesis says.
\<close>

theorem logger_name_last_wins:
  assumes "\<forall>h \<in> set (discovered ast_parse src). fst h \<noteq> []"
    and "N = (if discovered ast_parse src = [] then ''logger''
              else fst (last (discovered ast_parse src)))"
  shows "loggerName (envOf ast_parse src) = N \<and>
         (\<forall>x \<in> set (newLinesOf ast_parse src).
            x \<in> set (splitlines src) \<or> x \<in> set bootstrap \<or>
            (\<exists>indent lvl msg. x = logStatement indent N lvl msg))"
proof -
  have n: "loggerName (envOf ast_parse src) = N"
  proof (cases "discovered ast_parse src = []")
    case True
    then show ?thesis
      using assms(2) by (simp add: loggerName_envOf extractLoggerInfo_eq loggerNameOf_def)
  next
    case False
    then have "last (discovered ast_parse src) \<in> set (discovered ast_parse src)"
      by (rule last_in_set)
    with assms(1) have "fst (last (discovered ast_parse src)) \<noteq> []"
      by blast
    then show ?thesis
      using False assms(2) by (simp add: loggerName_envOf extractLoggerInfo_eq loggerNameOf_def)
  qed
  have "x \<in> set (splitlines src) \<or> x \<in> set bootstrap \<or>
        (\<exists>indent lvl msg. x = logStatement indent N lvl msg)"
    if "x \<in> set (newLinesOf ast_parse src)" for x
    using newLinesOf_lines [OF that] injected_shape [of "envOf ast_parse src"]
    unfolding n by metis
  with n show ?thesis by blast
qed

theorem logger_name_last_wins_witness:
  "discovered ex7_parse (text_of ex7_lines) = [(''log_a'', ''f''), (''log_b'', ''g'')] \<and>
   loggerName (envOf ex7_parse (text_of ex7_lines)) = ''log_b'' \<and>
   newLinesOf ex7_parse (text_of ex7_lines) =
     [''from commentlogger import logcomments'', ''import logging'', [],
      ''def f():'',
      ''    log_b.info('' @ [CHR 0x22] @ ''one'' @ [CHR 0x22] @ '')'',
      ''    x = 1  # one'',
      ''def g():'',
      ''    log_b.info('' @ [CHR 0x22] @ ''two'' @ [CHR 0x22] @ '')'',
      ''    y = 2  # two''] \<and>
   discovered ex3_parse (text_of ex3_lines) = [] \<and>
   loggerName (envOf ex3_parse (text_of ex3_lines)) = ''logger''"
proof -
  have h7: "\<forall>h \<in> set (discovered ex7_parse (text_of ex7_lines)). fst h \<noteq> []"
    unfolding ex7_discovered by simp
  have n7: "''log_b'' = (if discovered ex7_parse (text_of ex7_lines) = [] then ''logger''
              else fst (last (discovered ex7_parse (text_of ex7_lines))))"
    unfolding ex7_discovered by simp
  have h3: "\<forall>h \<in> set (discovered ex3_parse (text_of ex3_lines)). fst h \<noteq> []"
    unfolding ex3_discovered by simp
  have n3: "''logger'' = (if discovered ex3_parse (text_of ex3_lines) = [] then ''logger''
              else fst (last (discovered ex3_parse (text_of ex3_lines))))"
    unfolding ex3_discovered by simp
  have a: "loggerName (envOf ex7_parse (text_of ex7_lines)) = ''log_b''"
    using logger_name_last_wins [OF h7 n7] by (rule conjunct1)
  have b: "loggerName (envOf ex3_parse (text_of ex3_lines)) = ''logger''"
    using logger_name_last_wins [OF h3 n3] by (rule conjunct1)
  from ex7_discovered a ex7_out ex3_discovered b show ?thesis by (intro conjI)
qed

section \<open>A source that does not parse\<close>

text \<open>
  Claim C7. When the parser fails on the source, the analysis gives no logger name, an
  empty set of instrumented functions and an empty line-to-function map; no line is taken
  for a marker-decorator line and no statement is injected; the rewrite still returns its
  text, which is the lines of the source, with the import lines where they fall due,
  joined by line feeds.
\<close>

theorem parse_failure_degrades:
  assumes "ast_parse src = None"
  shows "extractLoggerInfo ast_parse src = (None, {}) \<and>
         lineToFunctionOf ast_parse src = Map.empty \<and>
         loggerName (envOf ast_parse src) = ''logger'' \<and>
         (\<forall>i line. \<not> injects (envOf ast_parse src) i line \<and>
                   \<not> shouldSkipDecoratorLine ast_parse line src) \<and>
         injectLogging ast_parse src =
           join [CHR 0x0A]
             (take (importIndex (splitlines src)) (splitlines src) @
              (if \<not> sublist ''import logging'' src \<and>
                  importIndex (splitlines src) < length (splitlines src)
               then [''import logging'', []] else []) @
              drop (importIndex (splitlines src)) (splitlines src))"
proof -
  have a: "extractLoggerInfo ast_parse src = (None, {})"
    using assms by (simp add: extractLoggerInfo_def)
  have b: "lineToFunctionOf ast_parse src = Map.empty"
    using assms by (simp add: lineToFunctionOf_def)
  have c: "loggerName (envOf ast_parse src) = ''logger''"
    by (simp add: loggerName_envOf a loggerNameOf_def)
  have s: "\<not> shouldSkipDecoratorLine ast_parse line src" for line
    using assms by (simp add: shouldSkipDecoratorLine_def Let_def split: option.splits)
  have z: "snd (extractLoggerInfo ast_parse src) = {}"
    by (simp add: a)
  have d: "\<not> injects (envOf ast_parse src) i line" for i line
    by (rule no_injects_plain) (simp add: decorated_envOf z)
  have e: "injectLogging ast_parse src =
           join [CHR 0x0A]
             (take (importIndex (splitlines src)) (splitlines src) @
              (if \<not> sublist ''import logging'' src \<and>
                  importIndex (splitlines src) < length (splitlines src)
               then [''import logging'', []] else []) @
              drop (importIndex (splitlines src)) (splitlines src))"
    unfolding injectLogging_def newLinesOf_plain [OF z]
    by (simp add: s bootstrap_def)
  from a b c s d e show ?thesis by blast
qed

theorem parse_failure_degrades_witness:
  "ex6_parse (text_of ex6_lines) = None \<and>
   extractLoggerInfo ex6_parse (text_of ex6_lines) = (None, {}) \<and>
   injectLogging ex6_parse (text_of ex6_lines) =
     join [CHR 0x0A] [''def f(:'', ''import logging'', [], ''    x = 1  # note'']"
proof -
  have p: "ex6_parse (text_of ex6_lines) = None"
    by (simp add: ex6_parse_def)
  note t = parse_failure_degrades [of ex6_parse "text_of ex6_lines", OF p]
  have l: "(1::nat) < length ex6_lines" by (simp add: ex6_lines_def)
  from t have a: "extractLoggerInfo ex6_parse (text_of ex6_lines) = (None, {})"
    by (rule conjunct1)
  from t have "injectLogging ex6_parse (text_of ex6_lines) =
           join [CHR 0x0A]
             (take (importIndex (splitlines (text_of ex6_lines))) (splitlines (text_of ex6_lines)) @
              (if \<not> sublist ''import logging'' (text_of ex6_lines) \<and>
                  importIndex (splitlines (text_of ex6_lines)) < length (splitlines (text_of ex6_lines))
               then [''import logging'', []] else []) @
              drop (importIndex (splitlines (text_of ex6_lines))) (splitlines (text_of ex6_lines)))"
    by (rule conjunct2 [THEN conjunct2, THEN conjunct2, THEN conjunct2])
  then have b: "injectLogging ex6_parse (text_of ex6_lines) =
     join [CHR 0x0A] [''def f(:'', ''import logging'', [], ''    x = 1  # note'']"
    unfolding ex6_split ex6_index using ex6_nosub l by (simp add: ex6_lines_def)
  from p a b show ?thesis by (intro conjI)
qed

section \<open>The canonical level set\<close>

text \<open>
  Claim C8, as the code has it. The loop of lines 8 to 10 pops a name when another name
  of the table starts with it and has the same rank, so of two such names the longer one
  stays (\<open>WARNING\<close>, not \<open>WARN\<close>). For every table with distinct names: no two names
  that are kept are a strict prefix of one another with the same rank; the shorter name of
  a same-rank prefix pair is dropped; a name with no longer same-rank alias is kept; and
  the result is sorted, without duplicates.
\<close>

theorem levels_keep_longest:
  assumes "distinct (map fst tbl)"
  shows "(a \<in> set (LOGLEVELS_of tbl) \<and> b \<in> set (LOGLEVELS_of tbl) \<and> strict_prefix a b
            \<longrightarrow> map_of tbl a \<noteq> map_of tbl b) \<and>
         ((a, r) \<in> set tbl \<and> (b, r) \<in> set tbl \<and> strict_prefix a b
            \<longrightarrow> a \<notin> set (LOGLEVELS_of tbl)) \<and>
         ((b, r) \<in> set tbl \<and> (\<forall>c. (c, r) \<in> set tbl \<longrightarrow> \<not> strict_prefix b c)
            \<longrightarrow> b \<in> set (LOGLEVELS_of tbl)) \<and>
         sorted (LOGLEVELS_of tbl) \<and> distinct (LOGLEVELS_of tbl)"
proof -
  have same: "v = v'" if "(k, v) \<in> set tbl" "(k, v') \<in> set tbl" for k v v'
    using assms that by (meson eq_key_imp_eq_value)
  have c1: "map_of tbl a \<noteq> map_of tbl b"
    if "a \<in> set (LOGLEVELS_of tbl)" "b \<in> set (LOGLEVELS_of tbl)" "strict_prefix a b"
  proof -
    from that obtain va vb where a: "(a, va) \<in> set tbl" "\<not> hasLongerAlias tbl a va"
      and b: "(b, vb) \<in> set tbl"
      by (auto simp: set_LOGLEVELS_of [OF assms])
    from a(2) b that(3) have "va \<noteq> vb" by (auto simp: hasLongerAlias_iff)
    moreover have "map_of tbl a = Some va" "map_of tbl b = Some vb"
      using a(1) b assms by simp_all
    ultimately show ?thesis by simp
  qed
  have c2: "a \<notin> set (LOGLEVELS_of tbl)"
    if "(a, r) \<in> set tbl" "(b, r) \<in> set tbl" "strict_prefix a b"
    using that same by (auto simp: set_LOGLEVELS_of [OF assms] hasLongerAlias_iff)
  have c3: "b \<in> set (LOGLEVELS_of tbl)"
    if "(b, r) \<in> set tbl" "\<forall>c. (c, r) \<in> set tbl \<longrightarrow> \<not> strict_prefix b c"
    using that by (auto simp: set_LOGLEVELS_of [OF assms] hasLongerAlias_iff)
  have c4: "sorted (LOGLEVELS_of tbl)" by (simp add: LOGLEVELS_of_def)
  have "distinct (map fst (dedupLevels tbl))"
    unfolding dedupLevels_def fold_pop using assms by (simp add: distinct_map_filter)
  then have c5: "distinct (LOGLEVELS_of tbl)" by (simp add: LOGLEVELS_of_def)
  from c1 c2 c3 c4 c5 show ?thesis by blast
qed

theorem levels_keep_longest_witness:
  "distinct (map fst nameToLevel) \<and>
   (''WARN'', 30) \<in> set nameToLevel \<and> (''WARNING'', 30) \<in> set nameToLevel \<and>
   strict_prefix ''WARN'' ''WARNING'' \<and>
   ''WARN'' \<notin> set LOGLEVELS \<and> ''WARNING'' \<in> set LOGLEVELS \<and>
   sorted LOGLEVELS \<and> distinct LOGLEVELS \<and>
   distinct (map fst [(''WARN'', 30 :: int), (''WARNING'', 31)]) \<and>
   ''WARN'' \<in> set (LOGLEVELS_of [(''WARN'', 30), (''WARNING'', 31)]) \<and>
   ''WARNING'' \<in> set (LOGLEVELS_of [(''WARN'', 30), (''WARNING'', 31)]) \<and>
   map_of [(''WARN'', 30 :: int), (''WARNING'', 31)] ''WARN'' \<noteq>
   map_of [(''WARN'', 30 :: int), (''WARNING'', 31)] ''WARNING''"
proof -
  have d: "distinct (map fst nameToLevel)" by (simp add: nameToLevel_def)
  have d': "distinct (map fst [(''WARN'', 30 :: int), (''WARNING'', 31)])" by simp
  have m: "(''WARN'', 30) \<in> set nameToLevel" "(''WARNING'', 30) \<in> set nameToLevel"
    by (simp_all add: nameToLevel_def)
  have p: "strict_prefix ''WARN'' ''WARNING''" by (simp add: strict_prefix_def)
  have top: "\<forall>c. (c, 30) \<in> set nameToLevel \<longrightarrow> \<not> strict_prefix ''WARNING'' c"
    by (auto simp: nameToLevel_def strict_prefix_def)
  have k: "''WARN'' \<in> set (LOGLEVELS_of [(''WARN'', 30), (''WARNING'', 31)])"
      "''WARNING'' \<in> set (LOGLEVELS_of [(''WARN'', 30), (''WARNING'', 31)])"
    by (simp_all add: LOGLEVELS_of_def dedupLevels_def hasLongerAlias_def pop_def startswith_def)
  show ?thesis
    using levels_keep_longest [OF d, of "''WARN''" "''WARNING''" 30] d m p top
      levels_keep_longest [OF d', of "''WARN''" "''WARNING''" 30] k
    by (simp add: LOGLEVELS_def)
qed

text \<open>
  Claim C8 as stated fails: \<open>WARN\<close> and \<open>WARNING\<close> have the same rank and the first is a
  strict prefix of the second, and it is the shorter name that leaves the set.
\<close>

theorem levels_shortest_counterexample:
  "(''WARN'', 30) \<in> set nameToLevel \<and> (''WARNING'', 30) \<in> set nameToLevel \<and>
   strict_prefix ''WARN'' ''WARNING'' \<and>
   ''WARN'' \<notin> set LOGLEVELS \<and> ''WARNING'' \<in> set LOGLEVELS"
  by (simp add: LOGLEVELS_eq nameToLevel_def strict_prefix_def)

section \<open>Level resolution\<close>

text \<open>
  Claim C9. Resolving the full text of a canonical level name, in any letter case, yields
  that level. In general the resolver returns the first name, in the order of the sorted
  list \<open>LOGLEVELS\<close>, that starts with the upper-cased prefix text.
\<close>

theorem resolveLevel_own_name:
  "(L \<in> set LOGLEVELS \<longrightarrow> resolveLevel L = Some L \<and> (upper s = L \<longrightarrow> resolveLevel s = Some L)) \<and>
   (resolveLevel s = Some M \<longleftrightarrow>
      (\<exists>i<length LOGLEVELS. LOGLEVELS ! i = M \<and> startswith M (upper s) \<and>
         (\<forall>j<i. \<not> startswith (LOGLEVELS ! j) (upper s)))) \<and>
   sorted LOGLEVELS \<and> distinct LOGLEVELS"
proof -
  have a: "resolveLevel L = Some L \<and> (upper s = L \<longrightarrow> resolveLevel s = Some L)"
    if "L \<in> set LOGLEVELS"
    using find_own_name [OF that] by (simp add: resolveLevel_def startswith_def)
  have b: "resolveLevel s = Some M \<longleftrightarrow>
      (\<exists>i<length LOGLEVELS. LOGLEVELS ! i = M \<and> startswith M (upper s) \<and>
         (\<forall>j<i. \<not> startswith (LOGLEVELS ! j) (upper s)))"
    unfolding resolveLevel_def find_Some_iff by blast
  have c: "sorted LOGLEVELS \<and> distinct LOGLEVELS"
    unfolding LOGLEVELS_eq by simp
  from a b c show ?thesis by blast
qed

theorem resolveLevel_own_name_witness:
  "''WARNING'' \<in> set LOGLEVELS \<and> upper ''Warning'' = ''WARNING'' \<and>
   resolveLevel ''WARNING'' = Some ''WARNING'' \<and> resolveLevel ''Warning'' = Some ''WARNING'' \<and>
   6 < length LOGLEVELS \<and> LOGLEVELS ! 6 = ''WARNING'' \<and> startswith ''WARNING'' (upper ''Warning'') \<and>
   \<not> startswith (LOGLEVELS ! 5) (upper ''Warning'') \<and> \<not> startswith (LOGLEVELS ! 0) (upper ''Warning'')"
  using resolveLevel_own_name [of "''WARNING''" "''Warning''" "''WARNING''"]
  by (simp add: LOGLEVELS_eq str_defs)

section \<open>A marker call without a logger argument\<close>

text \<open>
  Claim C10, as the code has it. A marker decorator call with no positional argument, or
  with a first positional argument that is not a bare identifier, records nothing: it
  leaves the logger name and the instrumented set as they are. The set holds names, so
  if no marker call on any definition of a name has a bare identifier as first argument,
  that name is not in the set and no line that the line-to-function map gives to it
  receives an injection. And a line of the shape \<open>@name(\<close> or \<open>@module.name(\<close> whose
  name an import binds to the marker module is taken for a marker-decorator line whatever
  follows the parenthesis: its turn of the loop appends nothing but the import lines
  when they fall due, so the line is left out of the output.
\<close>

theorem marker_without_logger:
  assumes "ast_parse src = Some tree"
  shows
    "(loggerArg args = None \<longleftrightarrow>
        args = [] \<or> (\<exists>a r. args = a # r \<and> (\<forall>ident. a \<noteq> Name ident))) \<and>
     (loggerArg args = None \<longrightarrow> visitDecorator cl nm (Call func args) st = st) \<and>
     ((\<forall>n \<in> set (walk tree). \<forall>ds. decoratorsOf n = Some (nm, ds) \<longrightarrow>
          (\<forall>d \<in> set ds. \<forall>func args. d = Call func args \<and> isMarker (clNamesOf tree) func \<longrightarrow>
             loggerArg args = None)) \<longrightarrow>
        nm \<notin> snd (extractLoggerInfo ast_parse src) \<and>
        (\<forall>i line. lineToFunctionOf ast_parse src (int i + 1) = Some nm \<longrightarrow>
           \<not> injects (envOf ast_parse src) i line)) \<and>
     (strip line = CHR ''@'' # dn @ ws @ CHR ''('' # rest \<and> dn \<noteq> [] \<and>
      (\<forall>c \<in> set dn. isword c \<or> c = CHR ''.'') \<and> (\<forall>c \<in> set ws. isspace c) \<and>
      list_ex (importBinds dn (split_first CHR ''.'' dn)) (walk tree) \<longrightarrow>
        shouldSkipDecoratorLine ast_parse line src \<and>
        loopBody ast_parse (envOf ast_parse src) k line (nl, a) =
          (nl @ (if \<not> a \<and> \<not> sublist ''import logging'' src \<and> atImportPoint line k
                 then bootstrap else []),
           a \<or> (\<not> sublist ''import logging'' src \<and> atImportPoint line k)))"
proof -
  have p1: "loggerArg args = None \<longleftrightarrow>
        args = [] \<or> (\<exists>a r. args = a # r \<and> (\<forall>ident. a \<noteq> Name ident))"
    by (rule loggerArg_None_iff)
  have p2: "visitDecorator cl nm (Call func args) st = st" if "loggerArg args = None"
    using that by (simp add: visitDecorator_eq recorded_def)
  have p3: "nm \<notin> snd (extractLoggerInfo ast_parse src) \<and>
        (\<forall>i line. lineToFunctionOf ast_parse src (int i + 1) = Some nm \<longrightarrow>
           \<not> injects (envOf ast_parse src) i line)"
    if h: "\<forall>n \<in> set (walk tree). \<forall>ds. decoratorsOf n = Some (nm, ds) \<longrightarrow>
          (\<forall>d \<in> set ds. \<forall>func args. d = Call func args \<and> isMarker (clNamesOf tree) func \<longrightarrow>
             loggerArg args = None)"
  proof -
    have n: "nm \<notin> snd (extractLoggerInfo ast_parse src)"
      using not_decorated [where ast_parse = ast_parse and src = src, OF assms h] .
    then have "\<not> injects (envOf ast_parse src) i line"
      if "lineToFunctionOf ast_parse src (int i + 1) = Some nm" for i line
      using that by (simp add: injects_iff lineToFunction_envOf decorated_envOf)
    with n show ?thesis by blast
  qed
  have p4: "shouldSkipDecoratorLine ast_parse line src \<and>
        loopBody ast_parse (envOf ast_parse src) k line (nl, a) =
          (nl @ (if \<not> a \<and> \<not> sublist ''import logging'' src \<and> atImportPoint line k
                 then bootstrap else []),
           a \<or> (\<not> sublist ''import logging'' src \<and> atImportPoint line k))"
    if s: "strip line = CHR ''@'' # dn @ ws @ CHR ''('' # rest" and d: "dn \<noteq> []"
      and w: "\<forall>c \<in> set dn. isword c \<or> c = CHR ''.''" and sp: "\<forall>c \<in> set ws. isspace c"
      and b: "list_ex (importBinds dn (split_first CHR ''.'' dn)) (walk tree)"
  proof -
    have sk: "shouldSkipDecoratorLine ast_parse line src"
      using skip_shape [where ast_parse = ast_parse and src = src, OF s d w sp assms] b by simp
    then have "shouldSkipDecoratorLine ast_parse line (sourceCode (envOf ast_parse src))"
      by (simp add: sourceCode_envOf)
    then have "emitted ast_parse (envOf ast_parse src) (k, line) = []"
      by (simp add: emitted_skip)
    then show ?thesis
      using sk by (simp add: loopBody_eq imports_envOf)
  qed
  from p1 p2 p3 p4 show ?thesis by blast
qed

theorem marker_without_logger_witness:
  "ex3_parse (text_of ex3_lines) = Some ex3_tree \<and>
   loggerArg [] = None \<and>
   visitDecorator (clNamesOf ex3_tree) ''f'' (Call (Name ''logcomments'') []) (None, {}) = (None, {}) \<and>
   ''f'' \<notin> snd (extractLoggerInfo ex3_parse (text_of ex3_lines)) \<and>
   lineToFunctionOf ex3_parse (text_of ex3_lines) (int 4 + 1) = Some ''f'' \<and>
   \<not> injects (envOf ex3_parse (text_of ex3_lines)) 4 ''    pass  # note'' \<and>
   strip ''@logcomments()'' = CHR ''@'' # ''logcomments'' @ [] @ CHR ''('' # '')'' \<and>
   shouldSkipDecoratorLine ex3_parse ''@logcomments()'' (text_of ex3_lines) \<and>
   loopBody ex3_parse (envOf ex3_parse (text_of ex3_lines)) 2 ''@logcomments()''
     ([''import logging'', ''from commentlogger import logcomments''], False) =
     ([''import logging'', ''from commentlogger import logcomments''], False)"
proof -
  note t = marker_without_logger [where ast_parse = ex3_parse and src = "text_of ex3_lines"
      and tree = ex3_tree and args = "[]" and nm = "''f''" and cl = "clNamesOf ex3_tree"
      and func = "Name ''logcomments''" and st = "(None, {})" and line = "''@logcomments()''"
      and dn = "''logcomments''" and ws = "[]" and rest = "'')''" and k = 2
      and nl = "[''import logging'', ''from commentlogger import logcomments'']" and a = False,
      OF ex3_parse_eq]
  have h: "\<forall>n \<in> set (walk ex3_tree). \<forall>ds. decoratorsOf n = Some (''f'', ds) \<longrightarrow>
          (\<forall>d \<in> set ds. \<forall>func args. d = Call func args \<and> isMarker (clNamesOf ex3_tree) func \<longrightarrow>
             loggerArg args = None)"
    by (simp add: ex3_tree_def walk_def)
  have m: "lineToFunctionOf ex3_parse (text_of ex3_lines) (int 4 + 1) = Some ''f''"
    by (simp add: lineToFunctionOf_def ex3_parse_eq ex3_tree_def walk_def stopOf_def)
  have s: "strip ''@logcomments()'' = CHR ''@'' # ''logcomments'' @ [] @ CHR ''('' # '')''"
    by (simp add: str_defs)
  have q: "''logcomments'' \<noteq> [] \<and> (\<forall>c \<in> set ''logcomments''. isword c \<or> c = CHR ''.'') \<and>
      (\<forall>c \<in> set []. isspace c) \<and>
      list_ex (importBinds ''logcomments'' (split_first CHR ''.'' ''logcomments'')) (walk ex3_tree)"
    by (simp add: isword_def ex3_tree_def walk_def importedName_def split_first_def)
  from t h have a: "''f'' \<notin> snd (extractLoggerInfo ex3_parse (text_of ex3_lines)) \<and>
        (\<forall>i line. lineToFunctionOf ex3_parse (text_of ex3_lines) (int i + 1) = Some ''f'' \<longrightarrow>
           \<not> injects (envOf ex3_parse (text_of ex3_lines)) i line)"
    by blast
  with m have b: "\<not> injects (envOf ex3_parse (text_of ex3_lines)) 4 ''    pass  # note''"
    by blast
  from t s q have c: "shouldSkipDecoratorLine ex3_parse ''@logcomments()'' (text_of ex3_lines) \<and>
        loopBody ex3_parse (envOf ex3_parse (text_of ex3_lines)) 2 ''@logcomments()''
          ([''import logging'', ''from commentlogger import logcomments''], False) =
          ([''import logging'', ''from commentlogger import logcomments''] @
             (if \<not> False \<and> \<not> sublist ''import logging'' (text_of ex3_lines) \<and>
                 atImportPoint ''@logcomments()'' 2
              then bootstrap else []),
           False \<or> (\<not> sublist ''import logging'' (text_of ex3_lines) \<and>
                 atImportPoint ''@logcomments()'' 2))"
    by blast
  then have d: "loopBody ex3_parse (envOf ex3_parse (text_of ex3_lines)) 2 ''@logcomments()''
     ([''import logging'', ''from commentlogger import logcomments''], False) =
     ([''import logging'', ''from commentlogger import logcomments''], False)"
    using ex3_sub by simp
  have e: "loggerArg [] = None" by simp
  from a have a1: "''f'' \<notin> snd (extractLoggerInfo ex3_parse (text_of ex3_lines))"
    by (rule conjunct1)
  from c have c1: "shouldSkipDecoratorLine ex3_parse ''@logcomments()'' (text_of ex3_lines)"
    by (rule conjunct1)
  from t e have v: "visitDecorator (clNamesOf ex3_tree) ''f'' (Call (Name ''logcomments'') [])
      (None, {}) = (None, {})"
    by blast
  from ex3_parse_eq e v a1 m b s c1 d show ?thesis by (intro conjI)
qed

text \<open>
  Claim C10 as stated fails where it concludes that no line in the body of such a function
  receives an injection. In the fifth sample program the second definition of \<open>f\<close> has a
  marker call without argument, but the first definition put the name \<open>f\<close> in the
  instrumented set, and the commented line in the body of the second one gets a statement.
\<close>

theorem same_name_injected_counterexample:
  "walk ex5_tree ! 3 = FunctionDef ''f'' [Call (Name ''logcomments'') []] 5 (Some 6) [OtherNode []] \<and>
   isMarker (clNamesOf ex5_tree) (Name ''logcomments'') \<and>
   loggerArg [] = None \<and>
   ''f'' \<in> snd (extractLoggerInfo ex5_parse (text_of ex5_lines)) \<and>
   newLinesOf ex5_parse (text_of ex5_lines) =
     [''from commentlogger import logcomments'', ''import logging'', [],
      ''def f(): pass'', ''def f():'',
      ''    log.info('' @ [CHR 0x22] @ ''note'' @ [CHR 0x22] @ '')'',
      ''    x = 1  # note'']"
proof -
  have a: "walk ex5_tree ! 3 =
      FunctionDef ''f'' [Call (Name ''logcomments'') []] 5 (Some 6) [OtherNode []]"
    by (simp add: ex5_tree_def walk_def)
  have b: "isMarker (clNamesOf ex5_tree) (Name ''logcomments'')"
    by (simp add: ex5_tree_def disc_defs)
  have c: "loggerArg [] = None" by simp
  have d: "''f'' \<in> snd (extractLoggerInfo ex5_parse (text_of ex5_lines))"
    by (simp add: ex5_info)
  from a b c d ex5_out show ?thesis by (intro conjI)
qed

end
